theory Spec2Isabelle
  imports Main "HOL-Library.Word"
begin

section \<open>Type-list metafunctions of \<^verbatim>\<open>OWS::detail::vrnt\<close>\<close>

text \<open>
  The alternative types of a \<^verbatim>\<open>Variant<Ts...>\<close> are opaque names of an arbitrary type
  \<open>'t\<close>; \<^verbatim>\<open>std::is_same<R, T>\<close> is equality of names. A template with the parameters
  \<^verbatim>\<open><typename R, typename T, typename... Ts>\<close> becomes a function of \<open>R\<close>, \<open>T\<close> and the
  list \<open>Ts\<close> of the pack, so that the mandatory parameter \<open>T\<close> cannot be missing. An
  instantiation that does not compile is \<open>None\<close>.
\<close>

text \<open>
  \<^verbatim>\<open>CTMM<T, A, B, Cs...>::s_min\<close> and \<^verbatim>\<open>::s_max\<close> (lines 51-64), for values of any
  ordered type \<open>T\<close>.
\<close>

fun CTMM_s_min :: "'a::linorder \<Rightarrow> 'a \<Rightarrow> 'a list \<Rightarrow> 'a" where
  "CTMM_s_min A B [] = (if A > B then B else A)"
| "CTMM_s_min A B (C # Cs) = CTMM_s_min (CTMM_s_min A B []) C Cs"

fun CTMM_s_max :: "'a::linorder \<Rightarrow> 'a \<Rightarrow> 'a list \<Rightarrow> 'a" where
  "CTMM_s_max A B [] = (if A > B then A else B)"
| "CTMM_s_max A B (C # Cs) = CTMM_s_max (CTMM_s_max A B []) C Cs"

text \<open>\<^verbatim>\<open>is_any<R, T, Ts...>\<close> (lines 67-71): the pre-C++17 disjunction.\<close>

fun is_any :: "'t \<Rightarrow> 't \<Rightarrow> 't list \<Rightarrow> bool" where
  "is_any R T [] = (R = T)"
| "is_any R T (T' # Ts) = (R = T \<or> is_any R T' Ts)"

text \<open>\<^verbatim>\<open>is_all<R, T, Ts...>\<close> (lines 74-78): the pre-C++17 conjunction.\<close>

fun is_all :: "'t \<Rightarrow> 't \<Rightarrow> 't list \<Rightarrow> bool" where
  "is_all R T [] = (R = T)"
| "is_all R T (T' # Ts) = (R = T \<and> is_all R T' Ts)"

text \<open>\<^verbatim>\<open>is_unique<T, Ts...>\<close> (lines 81-85): no duplicate types in the parameter pack.\<close>

fun is_unique :: "'t \<Rightarrow> 't list \<Rightarrow> bool" where
  "is_unique T [] = True"
| "is_unique T (T' # Ts) = (\<not> is_any T T' Ts \<and> is_unique T' Ts)"

text \<open>
  \<^verbatim>\<open>IthType<I, T, Ts...>::type\<close> (lines 87-91). \<^verbatim>\<open>IthType<I - 1, Ts...>\<close> on an empty
  pack has no \<open>T\<close>: the instantiation is ill-formed.
\<close>

fun IthType :: "nat \<Rightarrow> 't \<Rightarrow> 't list \<Rightarrow> 't option" where
  "IthType 0 T Ts = Some T"
| "IthType (Suc I) T [] = None"
| "IthType (Suc I) T (T' # Ts) = IthType I T' Ts"

text \<open>
  \<^verbatim>\<open>IFromType<I, R, T, Ts...>::value\<close> (lines 93-97). The partial specialisation
  \<^verbatim>\<open>IFromType<I, R, R, Ts...>\<close> is chosen when \<open>R\<close> is \<open>T\<close>; otherwise the primary template
  needs \<^verbatim>\<open>enable_if<is_any<R, T, Ts...>::value, size_t>\<close> and continues in the rest of the
  pack with \<open>I + 1\<close>.
\<close>

fun IFromType :: "nat \<Rightarrow> 't \<Rightarrow> 't \<Rightarrow> 't list \<Rightarrow> nat option" where
  "IFromType I R T [] = (if R = T then Some I else None)"
| "IFromType I R T (T' # Ts) =
     (if R = T then Some I
      else if is_any R T (T' # Ts) then IFromType (I + 1) R T' Ts
      else None)"

text \<open>
  The metafunctions applied to the whole pack \<^verbatim>\<open>Ts...\<close> of a \<^verbatim>\<open>Variant<Ts...>\<close>, as the
  class writes them: \<^verbatim>\<open>is_any<T, Ts...>::value\<close> in the \<^verbatim>\<open>enable_if\<close> of the member
  templates (an empty pack gives no overload), \<^verbatim>\<open>IFromType<0, T, Ts...>::value\<close> (the
  constant \<^verbatim>\<open>typeIdx\<close> of the accessors), \<^verbatim>\<open>IthType<I, Ts...>::type\<close> under
  \<^verbatim>\<open>I < sizeof...(Ts)\<close>, and \<^verbatim>\<open>is_unique<Ts...>::value\<close>.
\<close>

definition is_any_of :: "'t \<Rightarrow> 't list \<Rightarrow> bool" where
  "is_any_of R Ts = (case Ts of [] \<Rightarrow> False | T # Ts' \<Rightarrow> is_any R T Ts')"

definition typeIdx :: "'t list \<Rightarrow> 't \<Rightarrow> nat option" where
  "typeIdx Ts R = (case Ts of [] \<Rightarrow> None | T # Ts' \<Rightarrow> IFromType 0 R T Ts')"

definition IthType_of :: "nat \<Rightarrow> 't list \<Rightarrow> 't option" where
  "IthType_of I Ts =
     (if I < length Ts then (case Ts of [] \<Rightarrow> None | T # Ts' \<Rightarrow> IthType I T Ts') else None)"

definition is_unique_of :: "'t list \<Rightarrow> bool option" where
  "is_unique_of Ts = (case Ts of [] \<Rightarrow> None | T # Ts' \<Rightarrow> Some (is_unique T Ts'))"

section \<open>Exceptions and outcomes of a call\<close>

text \<open>\<^verbatim>\<open>std::to_string\<close> of an unsigned value: its decimal digits.\<close>

fun to_string :: "nat \<Rightarrow> string" where
  "to_string n =
     (if n < 10 then [char_of (48 + n)]
      else to_string (n div 10) @ [char_of (48 + n mod 10)])"

text \<open>
  \<^verbatim>\<open>bad_variant_access\<close> (lines 141-162) carries the message that \<^verbatim>\<open>what()\<close> returns:
  \<^verbatim>\<open>"bad_variant_access: "\<close> followed by the constructor's arguments. The other
  exceptions of the model are those an alternative's own constructor throws, of an
  arbitrary type \<open>'x\<close>.
\<close>

datatype 'x exn = bad_variant_access string | alternative_failure 'x

definition bad_get :: "nat \<Rightarrow> nat \<Rightarrow> 'x exn" where
  "bad_get requested actual =
     bad_variant_access (''bad_variant_access: '' @ ''get<'' @ to_string requested
       @ ''> on variant '' @ to_string actual)"

section \<open>The Variant object and the world around it\<close>

text \<open>
  \<^verbatim>\<open>m_Raw\<close> is a byte buffer that placement new and explicit destructor calls reuse.
  The model records what the bytes were last written as: nothing yet (\<open>Zeroed\<close>, the
  initialiser \<^verbatim>\<open>m_Raw[s_RawSize]{}\<close>), an object of type \<open>T\<close> with value \<open>v\<close> whose
  lifetime is running (\<open>Live T v\<close>), or the bytes that such an object left behind when
  its destructor ran (\<open>Dead T v\<close>). The code never looks at this: liveness is what the
  state invariant speaks about. \<^verbatim>\<open>m_Idx\<close> is an \<^verbatim>\<open>unsigned\<close>, 32 bits wide.
\<close>

type_synonym addr = nat

datatype ('t, 'v) storage = Zeroed | Live 't 'v | Dead 't 'v

record ('t, 'v) Variant =
  m_Raw :: "('t, 'v) storage"
  m_Idx :: "32 word"

text \<open>
  Variant objects are reached through \<^verbatim>\<open>this\<close> and \<^verbatim>\<open>other\<close>, which may be the same
  object: the world maps the address of every existing Variant object to its members.
  It also logs every completed construction and every destructor call of an
  alternative inside a buffer, in order.
\<close>

datatype ('t, 'v) event = Constructed addr 't 'v | Destroyed addr 't 'v

record ('t, 'v) world =
  store :: "addr \<Rightarrow> ('t, 'v) Variant option"
  trace :: "('t, 'v) event list"

text \<open>
  What a call does: it returns a value in a new world, it leaves by an exception in a
  new world, it calls \<^verbatim>\<open>std::terminate\<close> (an exception leaving a \<^verbatim>\<open>noexcept\<close> function),
  its behaviour is undefined (a pointer to no object, a table read out of its bounds,
  bytes used as a type they were never written as), or the call does not compile.
\<close>

datatype ('a, 't, 'v, 'x) result =
    Returns 'a "('t, 'v) world"
  | Throws "'x exn" "('t, 'v) world"
  | Terminates
  | Undefined
  | Rejected

fun and_then ::
  "('a, 't, 'v, 'x) result \<Rightarrow> ('a \<Rightarrow> ('t, 'v) world \<Rightarrow> ('b, 't, 'v, 'x) result)
     \<Rightarrow> ('b, 't, 'v, 'x) result" where
  "and_then (Returns a w) f = f a w"
| "and_then (Throws e w) f = Throws e w"
| "and_then Terminates f = Terminates"
| "and_then Undefined f = Undefined"
| "and_then Rejected f = Rejected"

fun noexcept :: "('a, 't, 'v, 'x) result \<Rightarrow> ('a, 't, 'v, 'x) result" where
  "noexcept (Throws e w) = Terminates"
| "noexcept r = r"

text \<open>
  The alternative types are template arguments: their sizes and their copy and move
  constructors are parameters of the model. A constructor either throws or gives the
  value of the new object; a move constructor also gives the value it leaves in its
  source. Destructors of alternatives do not throw.
\<close>

record ('t, 'v, 'x) alternatives =
  sizeof :: "'t \<Rightarrow> nat"
  copy_ctor :: "'t \<Rightarrow> 'v \<Rightarrow> 'x + 'v"
  move_ctor :: "'t \<Rightarrow> 'v \<Rightarrow> 'x + 'v \<times> 'v"

text \<open>
  An argument of type \<^verbatim>\<open>T const&\<close> or \<^verbatim>\<open>T&&\<close>: an object outside every Variant buffer,
  given by its value, or the buffer of the Variant at an address viewed as a \<open>T\<close>
  (\<^verbatim>\<open>reinterpret_cast<T>(rhsPtr->m_Raw)\<close> in \<^verbatim>\<open>TAssign\<close>). The arguments of
  \<^verbatim>\<open>T{ std::forward<Args>(args)... }\<close> are one such reference, or anything else, and then
  the outcome of \<open>T\<close>'s constructor is given.
\<close>

datatype 'v source = Lvalue 'v | Rvalue 'v | RawLvalue addr | RawRvalue addr

datatype ('v, 'x) ctor_args = From "'v source" | Other "'x + 'v"

definition s_Valueless :: "32 word" where
  "s_Valueless = - 1"

text \<open>
  \<^verbatim>\<open>s_RawSize\<close> (line 321) is \<^verbatim>\<open>CTMM<size_t, sizeof(Ts)...>::s_max\<close>, and \<^verbatim>\<open>CTMM\<close> needs
  two values at least. The class \<^verbatim>\<open>Variant<Ts...>\<close> compiles when its \<^verbatim>\<open>static_assert\<close>
  (line 169) holds and its member \<^verbatim>\<open>m_Raw[s_RawSize]\<close> has a size.
\<close>

definition s_RawSize :: "('t \<Rightarrow> nat) \<Rightarrow> 't list \<Rightarrow> nat option" where
  "s_RawSize szof Ts =
     (case map szof Ts of A # B # Cs \<Rightarrow> Some (CTMM_s_max A B Cs) | _ \<Rightarrow> None)"

definition static_assert_unique :: "'t list \<Rightarrow> bool" where
  "static_assert_unique Ts = (is_unique_of Ts = Some True)"

definition Variant_instantiable :: "('t, 'v, 'x) alternatives \<Rightarrow> 't list \<Rightarrow> bool" where
  "Variant_instantiable ops Ts =
     (static_assert_unique Ts \<and> s_RawSize (sizeof ops) Ts \<noteq> None)"

definition upd ::
  "addr \<Rightarrow> (('t, 'v) Variant \<Rightarrow> ('t, 'v) Variant) \<Rightarrow> ('t, 'v) world \<Rightarrow> ('t, 'v) world" where
  "upd p f w = w\<lparr>store := (store w)(p := map_option f (store w p))\<rparr>"

definition log :: "('t, 'v) event \<Rightarrow> ('t, 'v) world \<Rightarrow> ('t, 'v) world" where
  "log e w = w\<lparr>trace := trace w @ [e]\<rparr>"

section \<open>Queries and accessors (lines 171-235)\<close>

text \<open>
  A reference or a non-null pointer into the buffer is modelled by what it designates:
  the content of \<^verbatim>\<open>m_Raw\<close>. \<^verbatim>\<open>nullptr\<close> is \<open>None\<close>. The const and the non-const overloads
  have the same body. A comparison of \<^verbatim>\<open>typeIdx\<close> or \<open>I\<close> (a \<^verbatim>\<open>size_t\<close>) with \<^verbatim>\<open>m_Idx\<close>
  converts \<^verbatim>\<open>m_Idx\<close> to \<^verbatim>\<open>size_t\<close>, which keeps its value.
\<close>

definition index :: "addr \<Rightarrow> ('t, 'v) world \<Rightarrow> (32 word, 't, 'v, 'x) result" where
  "index this w =
     (case store w this of None \<Rightarrow> Undefined | Some V \<Rightarrow> Returns (m_Idx V) w)"

definition valueless :: "addr \<Rightarrow> ('t, 'v) world \<Rightarrow> (bool, 't, 'v, 'x) result" where
  "valueless this w =
     (case store w this of None \<Rightarrow> Undefined
      | Some V \<Rightarrow> Returns (m_Idx V = s_Valueless) w)"

definition holds_alternative ::
  "'t list \<Rightarrow> 't \<Rightarrow> addr \<Rightarrow> ('t, 'v) world \<Rightarrow> (bool, 't, 'v, 'x) result" where
  "holds_alternative Ts T this w =
     (case typeIdx Ts T of None \<Rightarrow> Rejected
      | Some i \<Rightarrow>
         (case store w this of None \<Rightarrow> Undefined
          | Some V \<Rightarrow> Returns (i = unat (m_Idx V)) w))"

definition get_if ::
  "'t list \<Rightarrow> 't \<Rightarrow> addr \<Rightarrow> ('t, 'v) world
     \<Rightarrow> (('t, 'v) storage option, 't, 'v, 'x) result" where
  "get_if Ts T this w =
     (if \<not> is_any_of T Ts then Rejected
      else case typeIdx Ts T of None \<Rightarrow> Rejected
      | Some i \<Rightarrow>
         (case store w this of None \<Rightarrow> Undefined
          | Some V \<Rightarrow> Returns (if i = unat (m_Idx V) then Some (m_Raw V) else None) w))"

definition get_if_I ::
  "'t list \<Rightarrow> nat \<Rightarrow> addr \<Rightarrow> ('t, 'v) world
     \<Rightarrow> (('t, 'v) storage option, 't, 'v, 'x) result" where
  "get_if_I Ts I this w =
     (case IthType_of I Ts of None \<Rightarrow> Rejected
      | Some T \<Rightarrow>
         (case store w this of None \<Rightarrow> Undefined
          | Some V \<Rightarrow> Returns (if I = unat (m_Idx V) then Some (m_Raw V) else None) w))"

definition get ::
  "'t list \<Rightarrow> 't \<Rightarrow> addr \<Rightarrow> ('t, 'v) world \<Rightarrow> (('t, 'v) storage, 't, 'v, 'x) result" where
  "get Ts T this w =
     (if \<not> is_any_of T Ts then Rejected
      else case typeIdx Ts T of None \<Rightarrow> Rejected
      | Some i \<Rightarrow>
         (case store w this of None \<Rightarrow> Undefined
          | Some V \<Rightarrow>
             if i \<noteq> unat (m_Idx V) then Throws (bad_get i (unat (m_Idx V))) w
             else Returns (m_Raw V) w))"

definition get_I ::
  "'t list \<Rightarrow> nat \<Rightarrow> addr \<Rightarrow> ('t, 'v) world \<Rightarrow> (('t, 'v) storage, 't, 'v, 'x) result" where
  "get_I Ts I this w =
     (case IthType_of I Ts of None \<Rightarrow> Rejected
      | Some T \<Rightarrow>
         (case store w this of None \<Rightarrow> Undefined
          | Some V \<Rightarrow>
             if I \<noteq> unat (m_Idx V) then Throws (bad_get I (unat (m_Idx V))) w
             else Returns (m_Raw V) w))"

section \<open>Lifetime of the alternative in the buffer\<close>

text \<open>
  The explicit destructor call \<^verbatim>\<open>.~T()\<close> on the buffer viewed as a \<open>T\<close>. It runs on the
  bytes it finds: on an object that is alive it ends the lifetime, on bytes whose \<open>T\<close>
  is already destroyed it runs a second time. Both are logged.
\<close>

definition T_destructor ::
  "'t \<Rightarrow> addr \<Rightarrow> ('t, 'v) world \<Rightarrow> (unit, 't, 'v, 'x) result" where
  "T_destructor T p w =
     (case store w p of None \<Rightarrow> Undefined
      | Some V \<Rightarrow>
         (case m_Raw V of
            Zeroed \<Rightarrow> Undefined
          | Live T' v \<Rightarrow>
              if T' = T
              then Returns () (log (Destroyed p T v) (upd p (m_Raw_update (\<lambda>_. Dead T v)) w))
              else Undefined
          | Dead T' v \<Rightarrow>
              if T' = T then Returns () (log (Destroyed p T v) w) else Undefined))"

text \<open>
  Reading and writing the buffer of the Variant at \<open>p\<close> through a reference to \<open>T\<close>. The
  bytes of a destroyed \<open>T\<close> are read as they are; bytes that were never written as a \<open>T\<close>
  cannot be read as one.
\<close>

definition read_as :: "'t \<Rightarrow> addr \<Rightarrow> ('t, 'v) world \<Rightarrow> 'v option" where
  "read_as T p w =
     (case store w p of None \<Rightarrow> None
      | Some V \<Rightarrow>
         (case m_Raw V of
            Zeroed \<Rightarrow> None
          | Live T' v \<Rightarrow> if T' = T then Some v else None
          | Dead T' v \<Rightarrow> if T' = T then Some v else None))"

definition write_as :: "'t \<Rightarrow> addr \<Rightarrow> 'v \<Rightarrow> ('t, 'v) world \<Rightarrow> ('t, 'v) world" where
  "write_as T p u w =
     upd p (m_Raw_update (\<lambda>r. case r of Zeroed \<Rightarrow> Zeroed
                              | Live T' v \<Rightarrow> Live T' u | Dead T' v \<Rightarrow> Dead T' u)) w"

text \<open>
  The constructor call of \<^verbatim>\<open>T{ std::forward<Args>(args)... }\<close>: the value of the new
  object, and what a move leaves in a source that is a Variant buffer.
\<close>

fun construct ::
  "('t, 'v, 'x) alternatives \<Rightarrow> 't \<Rightarrow> ('v, 'x) ctor_args \<Rightarrow> ('t, 'v) world
     \<Rightarrow> ('v, 't, 'v, 'x) result" where
  "construct ops T (Other r) w =
     (case r of Inl x \<Rightarrow> Throws (alternative_failure x) w | Inr v \<Rightarrow> Returns v w)"
| "construct ops T (From (Lvalue u)) w =
     (case copy_ctor ops T u of
        Inl x \<Rightarrow> Throws (alternative_failure x) w | Inr v \<Rightarrow> Returns v w)"
| "construct ops T (From (Rvalue u)) w =
     (case move_ctor ops T u of
        Inl x \<Rightarrow> Throws (alternative_failure x) w | Inr (v, u') \<Rightarrow> Returns v w)"
| "construct ops T (From (RawLvalue rhs)) w =
     (case read_as T rhs w of None \<Rightarrow> Undefined
      | Some u \<Rightarrow>
         (case copy_ctor ops T u of
            Inl x \<Rightarrow> Throws (alternative_failure x) w | Inr v \<Rightarrow> Returns v w))"
| "construct ops T (From (RawRvalue rhs)) w =
     (case read_as T rhs w of None \<Rightarrow> Undefined
      | Some u \<Rightarrow>
         (case move_ctor ops T u of
            Inl x \<Rightarrow> Throws (alternative_failure x) w
          | Inr (v, u') \<Rightarrow> Returns v (write_as T rhs u' w)))"

text \<open>\<^verbatim>\<open>*::new (reinterpret_cast<T*>(m_Raw)) T{ ... }\<close>: the reference to the new object.\<close>

definition placement_new ::
  "('t, 'v, 'x) alternatives \<Rightarrow> 't \<Rightarrow> ('v, 'x) ctor_args \<Rightarrow> addr \<Rightarrow> ('t, 'v) world
     \<Rightarrow> (('t, 'v) storage, 't, 'v, 'x) result" where
  "placement_new ops T args this w =
     and_then (construct ops T args w)
       (\<lambda>v w'. Returns (Live T v)
          (log (Constructed this T v) (upd this (m_Raw_update (\<lambda>_. Live T v)) w')))"

section \<open>Dispatch tables and mutating operations (lines 237-327)\<close>

text \<open>
  \<^verbatim>\<open>TDestructor<T>\<close> (lines 309-313) is \<^verbatim>\<open>noexcept\<close>: the exception of its \<^verbatim>\<open>get<T>()\<close>
  would end the program.
\<close>

definition TDestructor ::
  "'t list \<Rightarrow> 't \<Rightarrow> addr \<Rightarrow> ('t, 'v) world \<Rightarrow> (unit, 't, 'v, 'x) result" where
  "TDestructor Ts T thisPtr w =
     noexcept (and_then (get Ts T thisPtr w) (\<lambda>r w'. T_destructor T thisPtr w'))"

text \<open>
  A table is the list of its entries, one per alternative; a call through the table
  at \<^verbatim>\<open>m_Idx\<close> reads the entry first, and a read past the end is undefined.
\<close>

definition s_Destructors ::
  "'t list \<Rightarrow> (addr \<Rightarrow> ('t, 'v) world \<Rightarrow> (unit, 't, 'v, 'x) result) list" where
  "s_Destructors Ts = map (\<lambda>T. TDestructor Ts T) Ts"

definition call_at ::
  "'f list \<Rightarrow> 32 word \<Rightarrow> ('f \<Rightarrow> ('a, 't, 'v, 'x) result) \<Rightarrow> ('a, 't, 'v, 'x) result" where
  "call_at table idx run =
     (if unat idx < length table then run (table ! unat idx) else Undefined)"

text \<open>
  \<^verbatim>\<open>emplace<T>(args...)\<close> (lines 243-249). The assignment to \<^verbatim>\<open>m_Idx\<close> converts the
  \<^verbatim>\<open>size_t\<close> to \<^verbatim>\<open>unsigned\<close>.
\<close>

definition set_m_Idx :: "addr \<Rightarrow> 32 word \<Rightarrow> ('t, 'v) world \<Rightarrow> ('t, 'v) world" where
  "set_m_Idx p i w = upd p (m_Idx_update (\<lambda>_. i)) w"

definition emplace ::
  "('t, 'v, 'x) alternatives \<Rightarrow> 't list \<Rightarrow> 't \<Rightarrow> ('v, 'x) ctor_args \<Rightarrow> addr
     \<Rightarrow> ('t, 'v) world \<Rightarrow> (('t, 'v) storage, 't, 'v, 'x) result" where
  "emplace ops Ts T args this w =
     (if \<not> is_any_of T Ts then Rejected
      else case store w this of None \<Rightarrow> Undefined
      | Some V \<Rightarrow>
         and_then
           (if s_Valueless \<noteq> m_Idx V
            then call_at (s_Destructors Ts) (m_Idx V) (\<lambda>f. f this w)
            else Returns () w)
           (\<lambda>_ w1. case typeIdx Ts T of None \<Rightarrow> Rejected
              | Some i \<Rightarrow> placement_new ops T args this (set_m_Idx this (of_nat i) w1)))"

text \<open>
  \<^verbatim>\<open>TAssign<T>\<close> (lines 315-319), instantiated with \<^verbatim>\<open>Ts const&\<close> in \<^verbatim>\<open>s_CopyAssigns\<close> and
  with \<^verbatim>\<open>Ts&&\<close> in \<^verbatim>\<open>s_MoveAssigns\<close>.
\<close>

datatype ref_kind = Const_lvalue_ref | Rvalue_ref

definition TAssign ::
  "('t, 'v, 'x) alternatives \<Rightarrow> 't list \<Rightarrow> 't \<Rightarrow> ref_kind \<Rightarrow> addr \<Rightarrow> addr
     \<Rightarrow> ('t, 'v) world \<Rightarrow> (unit, 't, 'v, 'x) result" where
  "TAssign ops Ts T k lhsPtr rhsPtr w =
     and_then
       (emplace ops Ts T
          (From (case k of Const_lvalue_ref \<Rightarrow> RawLvalue rhsPtr | Rvalue_ref \<Rightarrow> RawRvalue rhsPtr))
          lhsPtr w)
       (\<lambda>r w'. Returns () w')"

definition s_CopyAssigns ::
  "('t, 'v, 'x) alternatives \<Rightarrow> 't list
     \<Rightarrow> (addr \<Rightarrow> addr \<Rightarrow> ('t, 'v) world \<Rightarrow> (unit, 't, 'v, 'x) result) list" where
  "s_CopyAssigns ops Ts = map (\<lambda>T. TAssign ops Ts T Const_lvalue_ref) Ts"

definition s_MoveAssigns ::
  "('t, 'v, 'x) alternatives \<Rightarrow> 't list
     \<Rightarrow> (addr \<Rightarrow> addr \<Rightarrow> ('t, 'v) world \<Rightarrow> (unit, 't, 'v, 'x) result) list" where
  "s_MoveAssigns ops Ts = map (\<lambda>T. TAssign ops Ts T Rvalue_ref) Ts"

text \<open>
  \<^verbatim>\<open>~Variant()\<close> (lines 237-241), \<^verbatim>\<open>noexcept\<close>. Afterwards there is no object at \<^verbatim>\<open>this\<close>.
\<close>

definition Variant_destructor ::
  "'t list \<Rightarrow> addr \<Rightarrow> ('t, 'v) world \<Rightarrow> (unit, 't, 'v, 'x) result" where
  "Variant_destructor Ts this w =
     (case store w this of None \<Rightarrow> Undefined
      | Some V \<Rightarrow>
         and_then
           (noexcept
              (if s_Valueless = m_Idx V then Returns () w
               else call_at (s_Destructors Ts) (m_Idx V) (\<lambda>f. f this w)))
           (\<lambda>_ w'. Returns () (w'\<lparr>store := (store w')(this := None)\<rparr>)))"

text \<open>
  The constructors. \<^verbatim>\<open>Variant() = default\<close> (line 252) gives the members their
  initialisers; it needs the class to compile and storage that holds no Variant yet.
  The other three delegate to it and then run their body. When the body of a
  delegating constructor leaves by an exception, the object's destructor runs before
  the exception goes on (the delegated constructor has completed: [except.ctor] of
  C++11), and no object remains.
\<close>

definition Variant_default ::
  "('t, 'v, 'x) alternatives \<Rightarrow> 't list \<Rightarrow> addr \<Rightarrow> ('t, 'v) world
     \<Rightarrow> (unit, 't, 'v, 'x) result" where
  "Variant_default ops Ts this w =
     (if \<not> Variant_instantiable ops Ts then Rejected
      else if store w this \<noteq> None then Undefined
      else Returns ()
        (w\<lparr>store := (store w)(this \<mapsto> \<lparr>m_Raw = Zeroed, m_Idx = s_Valueless\<rparr>)\<rparr>))"

definition delegating_body ::
  "'t list \<Rightarrow> addr \<Rightarrow> (unit, 't, 'v, 'x) result \<Rightarrow> (unit, 't, 'v, 'x) result" where
  "delegating_body Ts this r =
     (case r of
        Throws e w \<Rightarrow> and_then (Variant_destructor Ts this w) (\<lambda>_ w'. Throws e w')
      | _ \<Rightarrow> r)"

text \<open>Copy constructor (lines 254-258).\<close>

definition Variant_copy ::
  "('t, 'v, 'x) alternatives \<Rightarrow> 't list \<Rightarrow> addr \<Rightarrow> addr \<Rightarrow> ('t, 'v) world
     \<Rightarrow> (unit, 't, 'v, 'x) result" where
  "Variant_copy ops Ts this other w =
     and_then (Variant_default ops Ts this w)
       (\<lambda>_ w0. delegating_body Ts this
          (case store w0 other of None \<Rightarrow> Undefined
           | Some V' \<Rightarrow>
              if s_Valueless = m_Idx V' then Returns () w0
              else call_at (s_CopyAssigns ops Ts) (m_Idx V') (\<lambda>f. f this other w0)))"

text \<open>
  Move constructor (lines 260-265), \<^verbatim>\<open>noexcept\<close>: an exception of its body ends the
  program.
\<close>

definition Variant_move ::
  "('t, 'v, 'x) alternatives \<Rightarrow> 't list \<Rightarrow> addr \<Rightarrow> addr \<Rightarrow> ('t, 'v) world
     \<Rightarrow> (unit, 't, 'v, 'x) result" where
  "Variant_move ops Ts this other w =
     and_then (Variant_default ops Ts this w)
       (\<lambda>_ w0. noexcept
          (case store w0 other of None \<Rightarrow> Undefined
           | Some V' \<Rightarrow>
              if s_Valueless = m_Idx V' then Returns () w0
              else and_then
                (call_at (s_MoveAssigns ops Ts) (m_Idx V') (\<lambda>f. f this other w0))
                (\<lambda>_ w1. Returns () (set_m_Idx other s_Valueless w1))))"

text \<open>
  Value initialiser (lines 268-272): \<open>T\<close> is the type of the argument without its
  reference and cv-qualifiers, and it must be one of \<^verbatim>\<open>Ts...\<close>.
\<close>

definition Variant_value ::
  "('t, 'v, 'x) alternatives \<Rightarrow> 't list \<Rightarrow> 't \<Rightarrow> 'v source \<Rightarrow> addr \<Rightarrow> ('t, 'v) world
     \<Rightarrow> (unit, 't, 'v, 'x) result" where
  "Variant_value ops Ts T variant this w =
     (if \<not> is_any_of T Ts then Rejected
      else and_then (Variant_default ops Ts this w)
        (\<lambda>_ w0. delegating_body Ts this
           (and_then (emplace ops Ts T (From variant) this w0) (\<lambda>r w'. Returns () w'))))"

text \<open>Copy assignment (lines 274-284).\<close>

definition copy_assign ::
  "('t, 'v, 'x) alternatives \<Rightarrow> 't list \<Rightarrow> addr \<Rightarrow> addr \<Rightarrow> ('t, 'v) world
     \<Rightarrow> (unit, 't, 'v, 'x) result" where
  "copy_assign ops Ts this other w =
     (case store w this of None \<Rightarrow> Undefined
      | Some V \<Rightarrow>
         (case store w other of None \<Rightarrow> Undefined
          | Some V' \<Rightarrow>
             if s_Valueless = m_Idx V'
             then and_then
               (if s_Valueless \<noteq> m_Idx V
                then call_at (s_Destructors Ts) (m_Idx V) (\<lambda>f. f this w)
                else Returns () w)
               (\<lambda>_ w1. Returns () (set_m_Idx this s_Valueless w1))
             else call_at (s_CopyAssigns ops Ts) (m_Idx V') (\<lambda>f. f this other w)))"

text \<open>Move assignment (lines 286-297), \<^verbatim>\<open>noexcept\<close>.\<close>

definition move_assign ::
  "('t, 'v, 'x) alternatives \<Rightarrow> 't list \<Rightarrow> addr \<Rightarrow> addr \<Rightarrow> ('t, 'v) world
     \<Rightarrow> (unit, 't, 'v, 'x) result" where
  "move_assign ops Ts this other w =
     noexcept
       (case store w this of None \<Rightarrow> Undefined
        | Some V \<Rightarrow>
           (case store w other of None \<Rightarrow> Undefined
            | Some V' \<Rightarrow>
               if s_Valueless = m_Idx V'
               then and_then
                 (if s_Valueless \<noteq> m_Idx V
                  then call_at (s_Destructors Ts) (m_Idx V) (\<lambda>f. f this w)
                  else Returns () w)
                 (\<lambda>_ w1. Returns () (set_m_Idx this s_Valueless w1))
               else and_then
                 (call_at (s_MoveAssigns ops Ts) (m_Idx V') (\<lambda>f. f this other w))
                 (\<lambda>_ w1. Returns () (set_m_Idx other s_Valueless w1))))"

text \<open>Assignment of a value of one alternative's type (lines 300-305), \<^verbatim>\<open>noexcept\<close>.\<close>

definition value_assign ::
  "('t, 'v, 'x) alternatives \<Rightarrow> 't list \<Rightarrow> 't \<Rightarrow> 'v source \<Rightarrow> addr \<Rightarrow> ('t, 'v) world
     \<Rightarrow> (unit, 't, 'v, 'x) result" where
  "value_assign ops Ts T rhs this w =
     (if \<not> is_any_of T Ts then Rejected
      else noexcept
        (and_then (emplace ops Ts T (From rhs) this w) (\<lambda>r w'. Returns () w')))"

section \<open>Predicates of the claims\<close>

text \<open>The call leaves by a \<^verbatim>\<open>bad_variant_access\<close>.\<close>

definition raises_bad_access :: "('a, 't, 'v, 'x) result \<Rightarrow> bool" where
  "raises_bad_access r =
     (case r of
        Throws e w \<Rightarrow> (case e of bad_variant_access m \<Rightarrow> True | alternative_failure x \<Rightarrow> False)
      | _ \<Rightarrow> False)"

text \<open>
  The part of the state invariant that speaks about an active instance: a discriminant
  other than the sentinel is the index of an alternative, and the buffer holds a live
  object of that alternative.
\<close>

definition active_ok :: "'t list \<Rightarrow> ('t, 'v) Variant \<Rightarrow> bool" where
  "active_ok Ts V =
     (m_Idx V \<noteq> s_Valueless \<longrightarrow>
        unat (m_Idx V) < length Ts \<and>
        (case m_Raw V of Live T v \<Rightarrow> T = Ts ! unat (m_Idx V) | _ \<Rightarrow> False))"

text \<open>
  The state invariant of the data model: an active instance as above, and no live
  object in the buffer of a valueless instance.
\<close>

definition state_invariant :: "'t list \<Rightarrow> ('t, 'v) Variant \<Rightarrow> bool" where
  "state_invariant Ts V =
     (active_ok Ts V \<and>
      (m_Idx V = s_Valueless \<longrightarrow> (case m_Raw V of Live T v \<Rightarrow> False | _ \<Rightarrow> True)))"

text \<open>
  The constructor of \<open>T\<close>, called with arguments that do not refer to the buffer of a
  Variant, succeeds and gives the new object the value \<open>v\<close>.
\<close>

definition constructs ::
  "('t, 'v, 'x) alternatives \<Rightarrow> 't \<Rightarrow> ('v, 'x) ctor_args \<Rightarrow> 'v \<Rightarrow> bool" where
  "constructs ops T args v =
     (case args of
        Other r \<Rightarrow> r = Inr v
      | From (Lvalue u) \<Rightarrow> copy_ctor ops T u = Inr v
      | From (Rvalue u) \<Rightarrow> map_sum id fst (move_ctor ops T u) = Inr v
      | From (RawLvalue p) \<Rightarrow> False
      | From (RawRvalue p) \<Rightarrow> False)"

text \<open>The world in which a call leaves its caller, by a return or by an exception.\<close>

fun world_after :: "('a, 't, 'v, 'x) result \<Rightarrow> ('t, 'v) world option" where
  "world_after (Returns a w) = Some w"
| "world_after (Throws e w) = Some w"
| "world_after Terminates = None"
| "world_after Undefined = None"
| "world_after Rejected = None"


text \<open>The type of the object that is alive in a buffer, if there is one.\<close>

fun live_type :: "('t, 'v) storage \<Rightarrow> 't option" where
  "live_type Zeroed = None"
| "live_type (Live T v) = Some T"
| "live_type (Dead T v) = None"

text \<open>
  The worlds that a program reaches from the empty world by public operations of
  \<^verbatim>\<open>Variant<Ts...>\<close> that return normally: the four constructors, the three assignments,
  \<^verbatim>\<open>emplace\<close> and the destructor, on any addresses and with any arguments. The queries
  and accessors leave the world as it is, also when \<^verbatim>\<open>get\<close> throws.
\<close>

inductive reachable ::
  "('t, 'v, 'x) alternatives \<Rightarrow> 't list \<Rightarrow> ('t, 'v) world \<Rightarrow> bool"
  for ops :: "('t, 'v, 'x) alternatives" and Ts :: "'t list" where
  start: "reachable ops Ts \<lparr>store = (\<lambda>p. None), trace = []\<rparr>"
| default_constructed:
    "reachable ops Ts w \<Longrightarrow> Variant_default ops Ts this w = Returns () w' \<Longrightarrow>
       reachable ops Ts w'"
| value_constructed:
    "reachable ops Ts w \<Longrightarrow> Variant_value ops Ts T variant this w = Returns () w' \<Longrightarrow>
       reachable ops Ts w'"
| copy_constructed:
    "reachable ops Ts w \<Longrightarrow> Variant_copy ops Ts this other w = Returns () w' \<Longrightarrow>
       reachable ops Ts w'"
| move_constructed:
    "reachable ops Ts w \<Longrightarrow> Variant_move ops Ts this other w = Returns () w' \<Longrightarrow>
       reachable ops Ts w'"
| copy_assigned:
    "reachable ops Ts w \<Longrightarrow> copy_assign ops Ts this other w = Returns () w' \<Longrightarrow>
       reachable ops Ts w'"
| move_assigned:
    "reachable ops Ts w \<Longrightarrow> move_assign ops Ts this other w = Returns () w' \<Longrightarrow>
       reachable ops Ts w'"
| value_assigned:
    "reachable ops Ts w \<Longrightarrow> value_assign ops Ts T rhs this w = Returns () w' \<Longrightarrow>
       reachable ops Ts w'"
| emplaced:
    "reachable ops Ts w \<Longrightarrow> emplace ops Ts T args this w = Returns r w' \<Longrightarrow>
       reachable ops Ts w'"
| accessed:
    "reachable ops Ts w \<Longrightarrow>
       world_after (get Ts T this w :: (('t, 'v) storage, 't, 'v, 'x) result) = Some w' \<Longrightarrow>
       reachable ops Ts w'"
| destroyed:
    "reachable ops Ts w \<Longrightarrow>
       Variant_destructor Ts this w = (Returns () w' :: (unit, 't, 'v, 'x) result) \<Longrightarrow>
       reachable ops Ts w'"

section \<open>Basic facts about the metafunctions\<close>

text \<open>The smoke tests of the source (lines 105-135) hold in the model.\<close>

lemma CTMM_smoke_test:
  "CTMM_s_min (- 5 :: int) 3 [6, 1, 5] = - 5" "CTMM_s_max (- 5 :: int) 3 [6, 1, 5] = 6"
  "CTMM_s_min (3 :: nat) 6 [1, 5] = 1" "CTMM_s_max (3 :: nat) 6 [1, 5] = 6"
  by simp_all

lemma is_any_is_all_smoke_test:
  "is_any ''bool'' ''char'' [''int'', ''float'', ''bool'']"
  "\<not> is_any ''bool'' ''char'' [''int'', ''float'']"
  "\<not> is_all ''bool'' ''char'' [''int'', ''float'']"
  "is_all ''bool'' ''bool'' []"
  "is_all ''bool'' ''bool'' [''bool'', ''bool'']"
  "\<not> is_all ''bool'' ''bool'' [''bool'', ''bool'', ''float'']"
  by simp_all

lemma is_unique_smoke_test:
  "\<not> is_unique ''bool'' [''bool'', ''int'', ''float'', ''double'']"
  "\<not> is_unique ''bool'' [''float'', ''int'', ''float'', ''double'']"
  "is_unique ''bool'' [''char'', ''int'', ''float'', ''double'']"
  by simp_all

lemma IthType_smoke_test:
  "IthType 0 ''bool'' [''char'', ''int''] = Some ''bool''"
  "IthType (Suc 0) ''bool'' [''char'', ''int''] = Some ''char''"
  "IthType (Suc (Suc 0)) ''bool'' [''char'', ''int''] = Some ''int''"
  by simp_all

lemma IFromType_smoke_test:
  "IFromType 0 ''bool'' ''bool'' [''char'', ''int'', ''float''] = Some 0"
  "IFromType 0 ''char'' ''bool'' [''char'', ''int'', ''float''] = Some 1"
  "IFromType 0 ''int'' ''bool'' [''char'', ''int'', ''float''] = Some 2"
  "IFromType 0 ''float'' ''bool'' [''char'', ''int'', ''float''] = Some 3"
  by simp_all

lemma is_any_set: "is_any R T Ts = (R \<in> set (T # Ts))"
  by (induction Ts arbitrary: T) auto

lemma is_unique_distinct: "is_unique T Ts = distinct (T # Ts)"
  by (induction Ts arbitrary: T) (auto simp: is_any_set)

lemma is_any_of_set: "is_any_of R Ts = (R \<in> set Ts)"
  by (cases Ts) (simp_all add: is_any_of_def is_any_set)

lemma IFromType_None: "R \<notin> set (T # Ts) \<Longrightarrow> IFromType I R T Ts = None"
  by (induction Ts arbitrary: I T) (auto simp: is_any_set)

lemma IFromType_first:
  "R \<in> set (T # Ts) \<Longrightarrow>
     \<exists>i. IFromType I R T Ts = Some (I + i) \<and> i < length (T # Ts) \<and> (T # Ts) ! i = R
         \<and> (\<forall>j<i. (T # Ts) ! j \<noteq> R)"
proof (induction Ts arbitrary: I T)
  case Nil
  then show ?case by simp
next
  case (Cons T' Ts)
  show ?case
  proof (cases "R = T")
    case True
    then show ?thesis by simp
  next
    case False
    with Cons.prems have mem: "R \<in> set (T' # Ts)" by simp
    from Cons.IH [OF mem, of "I + 1"] obtain i where
      i: "IFromType (I + 1) R T' Ts = Some (I + 1 + i)" "i < length (T' # Ts)"
         "(T' # Ts) ! i = R" "\<forall>j<i. (T' # Ts) ! j \<noteq> R"
      by blast
    have "IFromType I R T (T' # Ts) = Some (I + Suc i)"
      using False mem i(1) by (simp add: is_any_set)
    moreover have "Suc i < length (T # T' # Ts)" using i(2) by simp
    moreover have "(T # T' # Ts) ! Suc i = R" using i(3) by simp
    moreover have "\<forall>j<Suc i. (T # T' # Ts) ! j \<noteq> R"
      using False i(4) by (auto simp: less_Suc_eq_0_disj)
    ultimately show ?thesis by blast
  qed
qed

lemma typeIdx_Some:
  "typeIdx Ts R = Some i \<Longrightarrow> i < length Ts \<and> Ts ! i = R"
proof (cases Ts)
  case Nil
  assume "typeIdx Ts R = Some i"
  with Nil show ?thesis by (simp add: typeIdx_def)
next
  case (Cons T Ts')
  assume a: "typeIdx Ts R = Some i"
  show ?thesis
  proof (cases "R \<in> set (T # Ts')")
    case True
    from IFromType_first [OF True, of 0] a Cons show ?thesis
      by (auto simp: typeIdx_def)
  next
    case False
    from IFromType_None [OF False, of 0] a Cons show ?thesis
      by (simp add: typeIdx_def)
  qed
qed

lemma typeIdx_member: "R \<in> set Ts \<Longrightarrow> \<exists>i. typeIdx Ts R = Some i"
proof (cases Ts)
  case Nil
  assume "R \<in> set Ts"
  with Nil show ?thesis by simp
next
  case (Cons T Ts')
  assume "R \<in> set Ts"
  with Cons have "R \<in> set (T # Ts')" by simp
  from IFromType_first [OF this, of 0] Cons show ?thesis
    by (auto simp: typeIdx_def)
qed

lemma typeIdx_None: "R \<notin> set Ts \<Longrightarrow> typeIdx Ts R = None"
  by (cases Ts) (simp_all add: typeIdx_def IFromType_None)

lemma typeIdx_nth:
  assumes "distinct Ts" "i < length Ts"
  shows "typeIdx Ts (Ts ! i) = Some i"
proof -
  from assms(2) have "Ts ! i \<in> set Ts" by simp
  from typeIdx_member [OF this] obtain j where j: "typeIdx Ts (Ts ! i) = Some j" by blast
  from typeIdx_Some [OF j] have "j < length Ts" "Ts ! j = Ts ! i" by simp_all
  with assms have "j = i" by (simp add: nth_eq_iff_index_eq)
  with j show ?thesis by simp
qed

lemma unat_of_nat_idx: "i < 2 ^ 32 \<Longrightarrow> unat (of_nat i :: 32 word) = i"
  by (simp add: unat_of_nat take_bit_nat_eq_self)

lemma unat_s_Valueless: "unat s_Valueless = 2 ^ 32 - 1"
  by (simp add: s_Valueless_def unsigned_minus_1_eq_mask mask_eq_exp_minus_1)

lemma of_nat_idx_not_valueless: "i < 2 ^ 32 - 1 \<Longrightarrow> (of_nat i :: 32 word) \<noteq> s_Valueless"
proof
  assume a: "i < 2 ^ 32 - 1" and e: "(of_nat i :: 32 word) = s_Valueless"
  from a have "unat (of_nat i :: 32 word) = i" by (simp add: unat_of_nat_idx)
  with e unat_s_Valueless show False using a by simp
qed

lemma static_assert_distinct: "static_assert_unique Ts = (Ts \<noteq> [] \<and> distinct Ts)"
  by (cases Ts) (simp_all add: static_assert_unique_def is_unique_of_def is_unique_distinct)

lemma Variant_instantiable_iff:
  "Variant_instantiable ops Ts = (2 \<le> length Ts \<and> distinct Ts)"
proof (cases Ts)
  case Nil
  then show ?thesis
    by (simp add: Variant_instantiable_def static_assert_distinct)
next
  case (Cons T Ts')
  then show ?thesis
    by (cases Ts') (auto simp: Variant_instantiable_def static_assert_distinct s_RawSize_def)
qed

lemma IthType_nth: "I < length (T # Ts) \<Longrightarrow> IthType I T Ts = Some ((T # Ts) ! I)"
proof (induction I T Ts rule: IthType.induct)
  case (1 T Ts)
  then show ?case by simp
next
  case (2 I T)
  then show ?case by simp
next
  case (3 I T T' Ts)
  then show ?case by simp
qed

lemma IthType_of_nth: "I < length Ts \<Longrightarrow> IthType_of I Ts = Some (Ts ! I)"
  by (cases Ts) (simp_all add: IthType_of_def IthType_nth)

lemma raises_bad_access_simps [simp]:
  "raises_bad_access (Throws (bad_get i j) w)"
  "\<not> raises_bad_access (Returns a w)"
  by (simp_all add: raises_bad_access_def bad_get_def)

section \<open>Basic facts about the operations\<close>

lemma store_upd [simp]: "store (upd p f w) = (store w)(p := map_option f (store w p))"
  and trace_upd [simp]: "trace (upd p f w) = trace w"
  and store_log [simp]: "store (log e w) = store w"
  and trace_log [simp]: "trace (log e w) = trace w @ [e]"
  and store_set_m_Idx [simp]:
    "store (set_m_Idx p i w) = (store w)(p := map_option (m_Idx_update (\<lambda>_. i)) (store w p))"
  and trace_set_m_Idx [simp]: "trace (set_m_Idx p i w) = trace w"
  by (simp_all add: upd_def log_def set_m_Idx_def)

lemma world_eqI: "store w = store w' \<Longrightarrow> trace w = trace w' \<Longrightarrow> w = (w' :: ('t, 'v) world)"
  by simp

lemma noexcept_T_destructor: "noexcept (T_destructor T p w) = T_destructor T p w"
  by (simp add: T_destructor_def split: option.split storage.split)

lemma T_destructor_Live:
  "store w p = Some V \<Longrightarrow> m_Raw V = Live T u \<Longrightarrow>
     T_destructor T p w =
       Returns () (w\<lparr>store := (store w)(p \<mapsto> V\<lparr>m_Raw := Dead T u\<rparr>),
                     trace := trace w @ [Destroyed p T u]\<rparr>)"
  by (simp add: T_destructor_def upd_def log_def)

lemma get_at_discriminant:
  assumes V: "store w this = Some V" and d: "distinct Ts" and i: "unat (m_Idx V) < length Ts"
  shows "get Ts (Ts ! unat (m_Idx V)) this w = Returns (m_Raw V) w"
proof -
  have "is_any_of (Ts ! unat (m_Idx V)) Ts" using i by (simp add: is_any_of_set)
  moreover have "typeIdx Ts (Ts ! unat (m_Idx V)) = Some (unat (m_Idx V))"
    using d i by (rule typeIdx_nth)
  ultimately show ?thesis by (simp add: get_def V)
qed

lemma s_Destructors_at_discriminant:
  assumes V: "store w this = Some V" and d: "distinct Ts" and i: "unat (m_Idx V) < length Ts"
  shows "call_at (s_Destructors Ts) (m_Idx V) (\<lambda>f. f this w)
         = T_destructor (Ts ! unat (m_Idx V)) this w"
  using i by (simp add: call_at_def s_Destructors_def TDestructor_def
      get_at_discriminant [OF V d i] noexcept_T_destructor)

lemma emplace_valueless:
  assumes V: "store w this = Some V" and v: "m_Idx V = s_Valueless"
    and T: "typeIdx Ts T = Some i"
  shows "emplace ops Ts T args this w
         = placement_new ops T args this
             (w\<lparr>store := (store w)(this \<mapsto> V\<lparr>m_Idx := of_nat i\<rparr>)\<rparr>)"
proof -
  from typeIdx_Some [OF T] have "T \<in> set Ts" by auto
  then have mem: "is_any_of T Ts" by (simp add: is_any_of_set)
  have e: "set_m_Idx this (of_nat i) w = w\<lparr>store := (store w)(this \<mapsto> V\<lparr>m_Idx := of_nat i\<rparr>)\<rparr>"
    by (simp add: set_m_Idx_def upd_def V)
  show ?thesis by (simp add: emplace_def mem V v T e)
qed

lemma emplace_active:
  assumes V: "store w this = Some V" and a: "m_Idx V \<noteq> s_Valueless"
    and i: "unat (m_Idx V) < length Ts" and r: "m_Raw V = Live (Ts ! unat (m_Idx V)) u"
    and d: "distinct Ts" and T: "typeIdx Ts T = Some i'"
  shows "emplace ops Ts T args this w
         = placement_new ops T args this
             (w\<lparr>store := (store w)(this \<mapsto>
                    \<lparr>m_Raw = Dead (Ts ! unat (m_Idx V)) u, m_Idx = of_nat i'\<rparr>),
                trace := trace w @ [Destroyed this (Ts ! unat (m_Idx V)) u]\<rparr>)"
proof -
  from typeIdx_Some [OF T] have "T \<in> set Ts" by auto
  then have mem: "is_any_of T Ts" by (simp add: is_any_of_set)
  let ?w1 = "w\<lparr>store := (store w)(this \<mapsto> V\<lparr>m_Raw := Dead (Ts ! unat (m_Idx V)) u\<rparr>),
               trace := trace w @ [Destroyed this (Ts ! unat (m_Idx V)) u]\<rparr>"
  have destroy: "call_at (s_Destructors Ts) (m_Idx V) (\<lambda>f. f this w) = Returns () ?w1"
    by (simp add: s_Destructors_at_discriminant [OF V d i] T_destructor_Live [OF V r])
  have e: "set_m_Idx this (of_nat i') ?w1
        = w\<lparr>store := (store w)(this \<mapsto>
                    \<lparr>m_Raw = Dead (Ts ! unat (m_Idx V)) u, m_Idx = of_nat i'\<rparr>),
             trace := trace w @ [Destroyed this (Ts ! unat (m_Idx V)) u]\<rparr>"
    by (cases V) (simp add: set_m_Idx_def upd_def)
  show ?thesis using a by (simp add: emplace_def mem V T destroy e)
qed

lemma construct_constructs:
  "constructs ops T args v \<Longrightarrow> construct ops T args w = Returns v w"
  by (cases args; cases "ops"; simp add: constructs_def split: source.splits sum.splits)
     (auto simp: map_sum_def split: sum.splits)

lemma placement_new_constructs:
  "constructs ops T args v \<Longrightarrow>
     placement_new ops T args this w =
       Returns (Live T v)
         (w\<lparr>store := (store w)(this := map_option (m_Raw_update (\<lambda>_. Live T v)) (store w this)),
            trace := trace w @ [Constructed this T v]\<rparr>)"
  by (simp add: placement_new_def construct_constructs upd_def log_def)

lemma Variant_default_fresh:
  "Variant_instantiable ops Ts \<Longrightarrow> store w this = None \<Longrightarrow>
     Variant_default ops Ts this w =
       Returns () (w\<lparr>store := (store w)(this \<mapsto> \<lparr>m_Raw = Zeroed, m_Idx = s_Valueless\<rparr>)\<rparr>)"
  by (simp add: Variant_default_def)



lemma active_okD:
  "active_ok Ts V \<Longrightarrow> m_Idx V \<noteq> s_Valueless \<Longrightarrow>
     unat (m_Idx V) < length Ts \<and> (\<exists>u. m_Raw V = Live (Ts ! unat (m_Idx V)) u)"
  by (auto simp: active_ok_def split: storage.splits)




lemma of_nat_unat_idx: "(of_nat (unat (x :: 32 word)) :: 32 word) = x"
  by simp

lemma placement_new_RawRvalue:
  assumes R: "store w rhs = Some R" and r: "m_Raw R = Live T u \<or> m_Raw R = Dead T u"
    and mv: "move_ctor ops T u = Inr (v, u')"
  shows "placement_new ops T (From (RawRvalue rhs)) this w =
     Returns (Live T v)
       (log (Constructed this T v)
          (upd this (m_Raw_update (\<lambda>_. Live T v)) (write_as T rhs u' w)))"
  using r by (auto simp: placement_new_def read_as_def R mv)

lemma placement_new_RawLvalue:
  assumes R: "store w rhs = Some R" and r: "m_Raw R = Live T u \<or> m_Raw R = Dead T u"
    and cp: "copy_ctor ops T u = Inr v"
  shows "placement_new ops T (From (RawLvalue rhs)) this w =
     Returns (Live T v) (log (Constructed this T v) (upd this (m_Raw_update (\<lambda>_. Live T v)) w))"
  using r by (auto simp: placement_new_def read_as_def R cp)

lemma s_MoveAssigns_at:
  "unat i < length Ts \<Longrightarrow>
     call_at (s_MoveAssigns ops Ts) i (\<lambda>f. f lhs rhs w)
       = TAssign ops Ts (Ts ! unat i) Rvalue_ref lhs rhs w"
  by (simp add: call_at_def s_MoveAssigns_def)

lemma s_CopyAssigns_at:
  "unat i < length Ts \<Longrightarrow>
     call_at (s_CopyAssigns ops Ts) i (\<lambda>f. f lhs rhs w)
       = TAssign ops Ts (Ts ! unat i) Const_lvalue_ref lhs rhs w"
  by (simp add: call_at_def s_CopyAssigns_def)

lemma Variant_instantiable_distinct: "Variant_instantiable ops Ts \<Longrightarrow> distinct Ts"
  by (simp add: Variant_instantiable_iff)

section \<open>Frame: what a call leaves unchanged\<close>

lemma get_Returns_world: "get Ts T this w = Returns r w' \<Longrightarrow> w' = w"
  by (auto simp: get_def split: if_splits option.splits)

lemma T_destructor_frame:
  "world_after (T_destructor T p w) = Some w' \<Longrightarrow> q \<noteq> p \<Longrightarrow> store w' q = store w q"
  by (auto simp: T_destructor_def split: option.splits storage.splits if_splits)

lemma TDestructor_frame:
  fixes w :: "('t, 'v) world"
  assumes "world_after (TDestructor Ts T p w :: (unit, 't, 'v, 'x) result) = Some w'"
    and "q \<noteq> p"
  shows "store w' q = store w q"
proof (cases "get Ts T p w :: (('t, 'v) storage, 't, 'v, 'x) result")
  case (Returns r w1)
  then have "w1 = w" by (rule get_Returns_world)
  with Returns assms show ?thesis
    by (simp add: TDestructor_def noexcept_T_destructor T_destructor_frame)
qed (use assms in \<open>simp_all add: TDestructor_def\<close>)

lemma s_Destructors_frame:
  "world_after (call_at (s_Destructors Ts) i (\<lambda>f. f p w)) = Some w' \<Longrightarrow> q \<noteq> p \<Longrightarrow>
     store w' q = store w q"
  by (auto simp: call_at_def s_Destructors_def TDestructor_frame split: if_splits)

lemma construct_frame:
  "world_after (construct ops T args w) = Some w' \<Longrightarrow> args \<noteq> From (RawRvalue q) \<Longrightarrow>
     store w' q = store w q"
  by (cases "(ops, T, args, w)" rule: construct.cases)
     (auto simp: write_as_def split: sum.splits option.splits prod.splits)

lemma placement_new_frame:
  assumes "world_after (placement_new ops T args this w) = Some w'"
    and "args \<noteq> From (RawRvalue q)" and "q \<noteq> this"
  shows "store w' q = store w q"
proof (cases "construct ops T args w")
  case (Returns v w1)
  then have "store w1 q = store w q" using construct_frame [of ops T args w w1 q] assms(2) by simp
  with Returns assms show ?thesis by (auto simp: placement_new_def)
next
  case (Throws e w1)
  then have "store w1 q = store w q" using construct_frame [of ops T args w w1 q] assms(2) by simp
  with Throws assms show ?thesis by (auto simp: placement_new_def)
qed (use assms in \<open>simp_all add: placement_new_def\<close>)

lemma emplace_frame:
  fixes w :: "('t, 'v) world" and ops :: "('t, 'v, 'x) alternatives"
  assumes e: "world_after (emplace ops Ts T args this w) = Some w'"
    and args: "args \<noteq> From (RawRvalue q)" and q: "q \<noteq> this"
  shows "store w' q = store w q"
proof -
  from e obtain V where V: "store w this = Some V" and mem: "is_any_of T Ts"
    by (auto simp: emplace_def split: if_splits option.splits)
  let ?d = "if s_Valueless \<noteq> m_Idx V
            then call_at (s_Destructors Ts) (m_Idx V) (\<lambda>f. f this w)
            else (Returns () w :: (unit, 't, 'v, 'x) result)"
  have em: "emplace ops Ts T args this w =
      and_then ?d (\<lambda>_ w1. case typeIdx Ts T of None \<Rightarrow> Rejected
              | Some i \<Rightarrow> placement_new ops T args this (set_m_Idx this (of_nat i) w1))"
    by (simp add: emplace_def mem V)
  show ?thesis
  proof (cases ?d)
    case (Returns x w1)
    then have "world_after ?d = Some w1" by simp
    then have w1: "store w1 q = store w q"
      using s_Destructors_frame [of Ts "m_Idx V" this w w1 q] q by (auto split: if_splits)
    from e em Returns obtain i where i: "typeIdx Ts T = Some i"
      and p: "world_after (placement_new ops T args this (set_m_Idx this (of_nat i) w1)) = Some w'"
      by (auto split: option.splits)
    from placement_new_frame [OF p args q] have "store w' q = store (set_m_Idx this (of_nat i) w1) q" .
    with w1 q show ?thesis by simp
  next
    case (Throws x w1)
    then have "world_after ?d = Some w1" by simp
    then have w1: "store w1 q = store w q"
      using s_Destructors_frame [of Ts "m_Idx V" this w w1 q] q by (auto split: if_splits)
    with e em Throws show ?thesis by simp
  qed (use e em in simp_all)
qed

lemma world_after_and_then_unit:
  "world_after (and_then r (\<lambda>x w'. Returns () w')) = world_after r"
  by (cases r) simp_all

lemma TAssign_frame:
  fixes w :: "('t, 'v) world" and ops :: "('t, 'v, 'x) alternatives"
  assumes "world_after (TAssign ops Ts T k lhs rhs w) = Some w'" and "q \<noteq> lhs"
    and "k = Const_lvalue_ref \<or> q \<noteq> rhs"
  shows "store w' q = store w q"
proof -
  let ?args = "From (case k of Const_lvalue_ref \<Rightarrow> RawLvalue rhs | Rvalue_ref \<Rightarrow> RawRvalue rhs)
    :: ('v, 'x) ctor_args"
  have "world_after (emplace ops Ts T ?args lhs w) = Some w'"
    using assms(1) by (simp add: TAssign_def world_after_and_then_unit)
  moreover have "?args \<noteq> From (RawRvalue q)" using assms(3) by (cases k) auto
  ultimately show ?thesis using assms(2) by (rule emplace_frame)
qed

lemma Variant_destructor_frame:
  fixes w :: "('t, 'v) world"
  assumes "world_after (Variant_destructor Ts this w :: (unit, 't, 'v, 'x) result) = Some w'"
    and "q \<noteq> this"
  shows "store w' q = store w q"
proof -
  from assms(1) obtain V where V: "store w this = Some V"
    by (auto simp: Variant_destructor_def split: option.splits)
  let ?d = "noexcept (if s_Valueless = m_Idx V then Returns () w
               else call_at (s_Destructors Ts) (m_Idx V) (\<lambda>f. f this w))
            :: (unit, 't, 'v, 'x) result"
  have vd: "Variant_destructor Ts this w
      = and_then ?d (\<lambda>_ w'. Returns () (w'\<lparr>store := (store w')(this := None)\<rparr>))"
    by (simp add: Variant_destructor_def V)
  show ?thesis
  proof (cases ?d)
    case (Returns x w1)
    have "store w1 q = store w q"
    proof (cases "s_Valueless = m_Idx V")
      case True
      with Returns show ?thesis by simp
    next
      case False
      with Returns have "world_after (call_at (s_Destructors Ts) (m_Idx V) (\<lambda>f. f this w)
          :: (unit, 't, 'v, 'x) result) = Some w1"
        by (cases "call_at (s_Destructors Ts) (m_Idx V) (\<lambda>f. f this w)
          :: (unit, 't, 'v, 'x) result") simp_all
      then show ?thesis using assms(2) by (rule s_Destructors_frame)
    qed
    with assms vd Returns show ?thesis by auto
  next
    case (Throws e w1)
    then show ?thesis
      by (cases "if s_Valueless = m_Idx V then Returns () w
               else call_at (s_Destructors Ts) (m_Idx V) (\<lambda>f. f this w)
            :: (unit, 't, 'v, 'x) result") (simp_all split: if_splits)
  qed (use assms vd in simp_all)
qed

lemma delegating_body_frame:
  fixes r :: "(unit, 't, 'v, 'x) result"
  assumes "world_after (delegating_body Ts this r) = Some w'" and "q \<noteq> this"
  shows "\<exists>w1. world_after r = Some w1 \<and> store w' q = store w1 q"
proof (cases r)
  case (Throws e w1)
  with assms(1) have "world_after (Variant_destructor Ts this w1 :: (unit, 't, 'v, 'x) result)
      = Some w'"
    by (cases "Variant_destructor Ts this w1 :: (unit, 't, 'v, 'x) result")
       (simp_all add: delegating_body_def)
  from Variant_destructor_frame [OF this assms(2)] Throws show ?thesis by simp
qed (use assms in \<open>simp_all add: delegating_body_def\<close>)

lemma Variant_copy_frame:
  fixes w :: "('t, 'v) world" and ops :: "('t, 'v, 'x) alternatives"
  assumes c: "world_after (Variant_copy ops Ts this other w) = Some w'" and q: "q \<noteq> this"
  shows "store w' q = store w q"
proof -
  let ?w0 = "w\<lparr>store := (store w)(this \<mapsto> \<lparr>m_Raw = Zeroed, m_Idx = s_Valueless\<rparr>)\<rparr>"
  from c have d: "Variant_default ops Ts this w = Returns () ?w0"
    by (auto simp: Variant_copy_def Variant_default_def split: if_splits)
  let ?body = "case store ?w0 other of None \<Rightarrow> Undefined
           | Some V' \<Rightarrow>
              if s_Valueless = m_Idx V' then Returns () ?w0
              else call_at (s_CopyAssigns ops Ts) (m_Idx V') (\<lambda>f. f this other ?w0)"
  have vc: "Variant_copy ops Ts this other w = delegating_body Ts this ?body"
    by (simp only: Variant_copy_def d and_then.simps)
  from c vc have "world_after (delegating_body Ts this ?body) = Some w'" by simp
  from delegating_body_frame [OF this q] obtain w1 where
    w1: "world_after ?body = Some w1" and e: "store w' q = store w1 q" by blast
  have "store w1 q = store ?w0 q"
  proof (cases "store ?w0 other")
    case None
    with w1 show ?thesis by simp
  next
    case (Some V')
    show ?thesis
    proof (cases "s_Valueless = m_Idx V'")
      case True
      with w1 Some show ?thesis by simp
    next
      case False
      with w1 Some have i: "unat (m_Idx V') < length Ts"
        by (auto simp: call_at_def s_CopyAssigns_def split: if_splits)
      from w1 Some False have "world_after
          (TAssign ops Ts (Ts ! unat (m_Idx V')) Const_lvalue_ref this other ?w0) = Some w1"
        by (simp add: s_CopyAssigns_at [OF i])
      from TAssign_frame [OF this q] show ?thesis by simp
    qed
  qed
  with e q show ?thesis by simp
qed

lemma Variant_copy_valueless:
  assumes inst: "Variant_instantiable ops Ts" and A: "store w a = Some A"
    and v: "m_Idx A = s_Valueless" and free: "store w b = None"
  shows "Variant_copy ops Ts b a w =
     Returns () (w\<lparr>store := (store w)(b \<mapsto> \<lparr>m_Raw = Zeroed, m_Idx = s_Valueless\<rparr>)\<rparr>)"
proof -
  have ab: "a \<noteq> b" using A free by auto
  then show ?thesis
    by (simp add: Variant_copy_def Variant_default_fresh [OF inst free] A v delegating_body_def)
qed

lemma Variant_copy_active:
  fixes w :: "('t, 'v) world" and ops :: "('t, 'v, 'x) alternatives"
  assumes inst: "Variant_instantiable ops Ts" and A: "store w a = Some A"
    and act: "m_Idx A \<noteq> s_Valueless" and j: "unat (m_Idx A) < length Ts"
    and r: "m_Raw A = Live (Ts ! unat (m_Idx A)) v" and free: "store w b = None"
    and cp: "copy_ctor ops (Ts ! unat (m_Idx A)) v = Inr v'"
  shows "Variant_copy ops Ts b a w =
     Returns ()
       (w\<lparr>store := (store w)(b \<mapsto> \<lparr>m_Raw = Live (Ts ! unat (m_Idx A)) v', m_Idx = m_Idx A\<rparr>),
          trace := trace w @ [Constructed b (Ts ! unat (m_Idx A)) v']\<rparr>)"
proof -
  let ?T = "Ts ! unat (m_Idx A)"
  have d: "distinct Ts" using inst by (rule Variant_instantiable_distinct)
  have ab: "a \<noteq> b" using A free by auto
  have ti: "typeIdx Ts ?T = Some (unat (m_Idx A))" using d j by (rule typeIdx_nth)
  let ?V0 = "\<lparr>m_Raw = Zeroed, m_Idx = s_Valueless\<rparr> :: ('t, 'v) Variant"
  let ?w0 = "w\<lparr>store := (store w)(b \<mapsto> ?V0)\<rparr>"
  let ?w1 = "?w0\<lparr>store := (store ?w0)(b \<mapsto> ?V0\<lparr>m_Idx := of_nat (unat (m_Idx A))\<rparr>)\<rparr>"
  let ?w' = "w\<lparr>store := (store w)(b \<mapsto> \<lparr>m_Raw = Live ?T v', m_Idx = m_Idx A\<rparr>),
              trace := trace w @ [Constructed b ?T v']\<rparr>"
  have V0: "store ?w0 b = Some ?V0" by simp
  have A0: "store ?w0 a = Some A" using ab A by simp
  have A1: "store ?w1 a = Some A" using ab A by simp
  have e: "emplace ops Ts ?T (From (RawLvalue a)) b ?w0
      = placement_new ops ?T (From (RawLvalue a)) b ?w1"
    by (rule emplace_valueless [OF V0 _ ti]) simp
  have p: "placement_new ops ?T (From (RawLvalue a)) b ?w1 =
     Returns (Live ?T v')
       (log (Constructed b ?T v') (upd b (m_Raw_update (\<lambda>_. Live ?T v')) ?w1))"
    by (rule placement_new_RawLvalue [OF A1 _ cp]) (simp add: r)
  have fin: "log (Constructed b ?T v') (upd b (m_Raw_update (\<lambda>_. Live ?T v')) ?w1) = ?w'"
    by (simp add: upd_def log_def)
  have act': "(s_Valueless = m_Idx A) = False" using act by auto
  show ?thesis
    by (simp only: Variant_copy_def Variant_default_fresh [OF inst free] and_then.simps A0
        option.simps act' if_False s_CopyAssigns_at [OF j] TAssign_def e p fin
        delegating_body_def result.simps source.simps ref_kind.simps)
qed




text \<open>
  The world in which \<^verbatim>\<open>emplace\<close> calls the constructor of the new alternative, on an
  instance in a valid state: the active value is destroyed and \<^verbatim>\<open>m_Idx\<close> is the index
  of the new alternative.
\<close>

lemma emplace_before_construction:
  fixes w :: "('t, 'v) world" and ops :: "('t, 'v, 'x) alternatives"
  assumes V: "store w this = Some V" and ok: "active_ok Ts V" and d: "distinct Ts"
    and T: "typeIdx Ts T = Some i"
  shows "\<exists>w1 V1. emplace ops Ts T args this w = placement_new ops T args this w1 \<and>
     store w1 = (store w)(this \<mapsto> V1) \<and> m_Idx V1 = of_nat i \<and>
     (m_Idx V = s_Valueless \<longrightarrow> m_Raw V1 = m_Raw V \<and> trace w1 = trace w) \<and>
     (m_Idx V \<noteq> s_Valueless \<longrightarrow>
        (\<exists>u. m_Raw V = Live (Ts ! unat (m_Idx V)) u \<and> m_Raw V1 = Dead (Ts ! unat (m_Idx V)) u \<and>
             trace w1 = trace w @ [Destroyed this (Ts ! unat (m_Idx V)) u]))"
proof (cases "m_Idx V = s_Valueless")
  case True
  let ?w1 = "w\<lparr>store := (store w)(this \<mapsto> V\<lparr>m_Idx := of_nat i\<rparr>)\<rparr>"
  have "emplace ops Ts T args this w = placement_new ops T args this ?w1"
    by (rule emplace_valueless [OF V True T])
  moreover have "store ?w1 = (store w)(this \<mapsto> V\<lparr>m_Idx := of_nat i\<rparr>)" by simp
  ultimately show ?thesis using True
    by (intro exI [of _ ?w1] exI [of _ "V\<lparr>m_Idx := of_nat i\<rparr>"]) simp
next
  case False
  from active_okD [OF ok False] obtain u where j: "unat (m_Idx V) < length Ts"
    and r: "m_Raw V = Live (Ts ! unat (m_Idx V)) u" by blast
  let ?V1 = "\<lparr>m_Raw = Dead (Ts ! unat (m_Idx V)) u, m_Idx = of_nat i\<rparr> :: ('t, 'v) Variant"
  let ?w1 = "w\<lparr>store := (store w)(this \<mapsto> ?V1),
                trace := trace w @ [Destroyed this (Ts ! unat (m_Idx V)) u]\<rparr>"
  have "emplace ops Ts T args this w = placement_new ops T args this ?w1"
    by (rule emplace_active [OF V False j r d T])
  then show ?thesis using False r
    by (intro exI [of _ ?w1] exI [of _ ?V1]) simp
qed


section \<open>Preservation of the invariant of active instances\<close>

lemma active_ok_live_type:
  "active_ok Ts V =
     (m_Idx V \<noteq> s_Valueless \<longrightarrow>
        unat (m_Idx V) < length Ts \<and> live_type (m_Raw V) = Some (Ts ! unat (m_Idx V)))"
  by (cases "m_Raw V") (auto simp: active_ok_def)

lemma active_ok_cong:
  "m_Idx V' = m_Idx V \<Longrightarrow> live_type (m_Raw V') = live_type (m_Raw V) \<Longrightarrow>
     active_ok Ts V' = active_ok Ts V"
  by (simp add: active_ok_live_type)

lemma active_ok_valueless: "m_Idx V = s_Valueless \<Longrightarrow> active_ok Ts V"
  by (simp add: active_ok_def)

lemma construct_shape:
  assumes "construct ops T args w = Returns v w'" and "store w' p = Some V'"
  shows "\<exists>V. store w p = Some V \<and> m_Idx V' = m_Idx V \<and>
             live_type (m_Raw V') = live_type (m_Raw V)"
  using assms
  by (cases "(ops, T, args, w)" rule: construct.cases)
     (auto simp: write_as_def split: sum.splits option.splits prod.splits if_splits
        storage.splits)

lemma placement_new_Returns:
  assumes "placement_new ops T args this w = Returns r w'"
  shows "\<exists>v w2. construct ops T args w = Returns v w2 \<and> r = Live T v \<and>
     store w' = (store w2)(this := map_option (m_Raw_update (\<lambda>_. Live T v)) (store w2 this))"
  using assms
  by (cases "construct ops T args w") (auto simp: placement_new_def)

lemma emplace_preserves:
  fixes w :: "('t, 'v) world" and ops :: "('t, 'v, 'x) alternatives"
  assumes inv: "\<forall>p V. store w p = Some V \<longrightarrow> active_ok Ts V"
    and d: "distinct Ts" and N: "length Ts < 2 ^ 32"
    and e: "emplace ops Ts T args this w = Returns r w'"
  shows "\<forall>p V. store w' p = Some V \<longrightarrow> active_ok Ts V"
proof (intro allI impI)
  fix p V' assume p: "store w' p = Some V'"
  from e obtain V where V: "store w this = Some V" and mem: "is_any_of T Ts"
    by (auto simp: emplace_def split: if_splits option.splits)
  from mem have "T \<in> set Ts" by (simp add: is_any_of_set)
  from typeIdx_member [OF this] obtain i where i: "typeIdx Ts T = Some i" by blast
  from typeIdx_Some [OF i] have il: "i < length Ts" and it: "Ts ! i = T" by simp_all
  have u: "unat (of_nat i :: 32 word) = i" using il N by (simp add: unat_of_nat_idx)
  from inv V have ok: "active_ok Ts V" by blast
  from emplace_before_construction [OF V ok d i, of ops args]
  obtain w1 V1 where e1: "emplace ops Ts T args this w = placement_new ops T args this w1"
    and s1: "store w1 = (store w)(this \<mapsto> V1)" and i1: "m_Idx V1 = of_nat i"
    by blast
  from e e1 have "placement_new ops T args this w1 = Returns r w'" by simp
  from placement_new_Returns [OF this] obtain v w2 where
    c: "construct ops T args w1 = Returns v w2"
    and s': "store w' = (store w2)(this := map_option (m_Raw_update (\<lambda>_. Live T v)) (store w2 this))"
    by blast
  show "active_ok Ts V'"
  proof (cases "p = this")
    case True
    with p s' obtain V2 where V2: "store w2 this = Some V2"
      and V': "V' = V2\<lparr>m_Raw := Live T v\<rparr>" by auto
    from construct_shape [OF c V2] obtain V0 where V0: "store w1 this = Some V0"
      and m: "m_Idx V2 = m_Idx V0" by blast
    from s1 have "store w1 this = Some V1" by simp
    with V0 have "V0 = V1" by simp
    with m i1 have "m_Idx V2 = of_nat i" by simp
    with V' u il it show ?thesis by (simp add: active_ok_def)
  next
    case False
    with p s' have p2: "store w2 p = Some V'" by simp
    from construct_shape [OF c p2] obtain V0 where "store w1 p = Some V0"
      and same: "m_Idx V' = m_Idx V0" "live_type (m_Raw V') = live_type (m_Raw V0)" by blast
    with s1 False have "store w p = Some V0" by simp
    with inv have "active_ok Ts V0" by blast
    with active_ok_cong [OF same, of Ts] show ?thesis by simp
  qed
qed

lemma TAssign_preserves:
  fixes w :: "('t, 'v) world" and ops :: "('t, 'v, 'x) alternatives"
  assumes inv: "\<forall>p V. store w p = Some V \<longrightarrow> active_ok Ts V"
    and d: "distinct Ts" and N: "length Ts < 2 ^ 32"
    and t: "TAssign ops Ts T k lhs rhs w = Returns () w'"
  shows "\<forall>p V. store w' p = Some V \<longrightarrow> active_ok Ts V"
proof -
  let ?args = "From (case k of Const_lvalue_ref \<Rightarrow> RawLvalue rhs | Rvalue_ref \<Rightarrow> RawRvalue rhs)
    :: ('v, 'x) ctor_args"
  from t obtain r where "emplace ops Ts T ?args lhs w = Returns r w'"
    by (cases "emplace ops Ts T ?args lhs w") (simp_all add: TAssign_def)
  from emplace_preserves [OF inv d N this] show ?thesis .
qed

lemma set_valueless_preserves:
  assumes inv: "\<forall>p V. store w p = Some V \<longrightarrow> active_ok Ts V"
    and frame: "\<forall>p. p \<noteq> q \<longrightarrow> store w1 p = store w p"
  shows "\<forall>p V. store (set_m_Idx q s_Valueless w1) p = Some V \<longrightarrow> active_ok Ts V"
proof (intro allI impI)
  fix p V assume s: "store (set_m_Idx q s_Valueless w1) p = Some V"
  show "active_ok Ts V"
  proof (cases "p = q")
    case True
    with s have "m_Idx V = s_Valueless" by auto
    then show ?thesis by (rule active_ok_valueless)
  next
    case False
    with s frame have "store w p = Some V" by simp
    with inv show ?thesis by blast
  qed
qed

lemma Variant_default_preserves:
  assumes inv: "\<forall>p V. store w p = Some V \<longrightarrow> active_ok Ts V"
    and c: "Variant_default ops Ts this w = Returns () w'"
  shows "\<forall>p V. store w' p = Some V \<longrightarrow> active_ok Ts V"
proof -
  from c have "w' = w\<lparr>store := (store w)(this \<mapsto> \<lparr>m_Raw = Zeroed, m_Idx = s_Valueless\<rparr>)\<rparr>"
    by (auto simp: Variant_default_def split: if_splits)
  with inv show ?thesis by (auto simp: active_ok_def)
qed

lemma delegating_body_Returns:
  fixes r :: "(unit, 't, 'v, 'x) result"
  shows "delegating_body Ts this r = Returns x w' \<Longrightarrow> r = Returns x w'"
proof (cases r)
  case (Throws e w1)
  assume "delegating_body Ts this r = Returns x w'"
  with Throws show ?thesis
    by (cases "Variant_destructor Ts this w1 :: (unit, 't, 'v, 'x) result")
       (simp_all add: delegating_body_def)
qed (simp_all add: delegating_body_def)

lemma noexcept_Returns: "noexcept r = Returns x w' \<Longrightarrow> r = Returns x w'"
  by (cases r) simp_all

lemma and_then_Returns:
  "and_then r f = Returns y w' \<Longrightarrow> \<exists>x w1. r = Returns x w1 \<and> f x w1 = Returns y w'"
  by (cases r) simp_all

lemma destroy_step_frame:
  fixes w :: "('t, 'v) world"
  assumes "(if s_Valueless \<noteq> m_Idx V
            then call_at (s_Destructors Ts) (m_Idx V) (\<lambda>f. f this w)
            else Returns () w) = (Returns () w1 :: (unit, 't, 'v, 'x) result)"
  shows "\<forall>p. p \<noteq> this \<longrightarrow> store w1 p = store w p"
proof (intro allI impI)
  fix p assume p: "p \<noteq> this"
  show "store w1 p = store w p"
  proof (cases "s_Valueless \<noteq> m_Idx V")
    case True
    with assms have "world_after (call_at (s_Destructors Ts) (m_Idx V) (\<lambda>f. f this w)
        :: (unit, 't, 'v, 'x) result) = Some w1" by simp
    then show ?thesis using p by (rule s_Destructors_frame)
  next
    case False
    with assms show ?thesis by simp
  qed
qed

lemma Variant_value_preserves:
  fixes w :: "('t, 'v) world" and ops :: "('t, 'v, 'x) alternatives"
  assumes inv: "\<forall>p V. store w p = Some V \<longrightarrow> active_ok Ts V"
    and d: "distinct Ts" and N: "length Ts < 2 ^ 32"
    and c: "Variant_value ops Ts T variant this w = Returns () w'"
  shows "\<forall>p V. store w' p = Some V \<longrightarrow> active_ok Ts V"
proof -
  from c have c': "and_then (Variant_default ops Ts this w)
        (\<lambda>_ w0. delegating_body Ts this
           (and_then (emplace ops Ts T (From variant) this w0) (\<lambda>r w'. Returns () w')))
      = Returns () w'"
    by (simp add: Variant_value_def split: if_splits)
  from and_then_Returns [OF c'] obtain w0 where
    d0: "Variant_default ops Ts this w = Returns () w0"
    and b: "delegating_body Ts this
           (and_then (emplace ops Ts T (From variant) this w0) (\<lambda>r w'. Returns () w'))
         = Returns () w'" by auto
  from delegating_body_Returns [OF b] and_then_Returns
  obtain r where e: "emplace ops Ts T (From variant) this w0 = Returns r w'" by fastforce
  from Variant_default_preserves [OF inv d0] have "\<forall>p V. store w0 p = Some V \<longrightarrow> active_ok Ts V" .
  from emplace_preserves [OF this d N e] show ?thesis .
qed

lemma value_assign_preserves:
  fixes w :: "('t, 'v) world" and ops :: "('t, 'v, 'x) alternatives"
  assumes inv: "\<forall>p V. store w p = Some V \<longrightarrow> active_ok Ts V"
    and d: "distinct Ts" and N: "length Ts < 2 ^ 32"
    and c: "value_assign ops Ts T rhs this w = Returns () w'"
  shows "\<forall>p V. store w' p = Some V \<longrightarrow> active_ok Ts V"
proof -
  from c have "noexcept (and_then (emplace ops Ts T (From rhs) this w) (\<lambda>r w'. Returns () w'))
      = Returns () w'"
    by (simp add: value_assign_def split: if_splits)
  from and_then_Returns [OF noexcept_Returns [OF this]]
  obtain r where e: "emplace ops Ts T (From rhs) this w = Returns r w'" by auto
  from emplace_preserves [OF inv d N e] show ?thesis .
qed

lemma Variant_copy_preserves:
  fixes w :: "('t, 'v) world" and ops :: "('t, 'v, 'x) alternatives"
  assumes inv: "\<forall>p V. store w p = Some V \<longrightarrow> active_ok Ts V"
    and d: "distinct Ts" and N: "length Ts < 2 ^ 32"
    and c: "Variant_copy ops Ts this other w = Returns () w'"
  shows "\<forall>p V. store w' p = Some V \<longrightarrow> active_ok Ts V"
proof -
  from and_then_Returns [OF c [unfolded Variant_copy_def]] obtain w0 where
    d0: "Variant_default ops Ts this w = Returns () w0"
    and b: "delegating_body Ts this
          (case store w0 other of None \<Rightarrow> Undefined
           | Some V' \<Rightarrow>
              if s_Valueless = m_Idx V' then Returns () w0
              else call_at (s_CopyAssigns ops Ts) (m_Idx V') (\<lambda>f. f this other w0))
         = Returns () w'" by auto
  from Variant_default_preserves [OF inv d0]
  have inv0: "\<forall>p V. store w0 p = Some V \<longrightarrow> active_ok Ts V" .
  from delegating_body_Returns [OF b] obtain V' where O: "store w0 other = Some V'"
    and r: "(if s_Valueless = m_Idx V' then Returns () w0
              else call_at (s_CopyAssigns ops Ts) (m_Idx V') (\<lambda>f. f this other w0))
            = Returns () w'"
    by (auto split: option.splits)
  show ?thesis
  proof (cases "s_Valueless = m_Idx V'")
    case True
    with r inv0 show ?thesis by simp
  next
    case False
    with r have i: "unat (m_Idx V') < length Ts"
      by (auto simp: call_at_def s_CopyAssigns_def split: if_splits)
    from r False have "TAssign ops Ts (Ts ! unat (m_Idx V')) Const_lvalue_ref this other w0
        = Returns () w'"
      by (simp add: s_CopyAssigns_at [OF i])
    from TAssign_preserves [OF inv0 d N this] show ?thesis .
  qed
qed

lemma set_valueless_preserves_same:
  assumes inv: "\<forall>p V. store w p = Some V \<longrightarrow> active_ok Ts V"
  shows "\<forall>p V. store (set_m_Idx q s_Valueless w) p = Some V \<longrightarrow> active_ok Ts V"
  by (rule set_valueless_preserves [OF inv]) simp

lemma Variant_move_preserves:
  fixes w :: "('t, 'v) world" and ops :: "('t, 'v, 'x) alternatives"
  assumes inv: "\<forall>p V. store w p = Some V \<longrightarrow> active_ok Ts V"
    and d: "distinct Ts" and N: "length Ts < 2 ^ 32"
    and c: "Variant_move ops Ts this other w = Returns () w'"
  shows "\<forall>p V. store w' p = Some V \<longrightarrow> active_ok Ts V"
proof -
  from and_then_Returns [OF c [unfolded Variant_move_def]] obtain w0 where
    d0: "Variant_default ops Ts this w = Returns () w0"
    and b: "noexcept
          (case store w0 other of None \<Rightarrow> Undefined
           | Some V' \<Rightarrow>
              if s_Valueless = m_Idx V' then Returns () w0
              else and_then
                (call_at (s_MoveAssigns ops Ts) (m_Idx V') (\<lambda>f. f this other w0))
                (\<lambda>_ w1. Returns () (set_m_Idx other s_Valueless w1)))
         = Returns () w'" by auto
  from Variant_default_preserves [OF inv d0]
  have inv0: "\<forall>p V. store w0 p = Some V \<longrightarrow> active_ok Ts V" .
  from noexcept_Returns [OF b] obtain V' where O: "store w0 other = Some V'"
    and r: "(if s_Valueless = m_Idx V' then Returns () w0
              else and_then
                (call_at (s_MoveAssigns ops Ts) (m_Idx V') (\<lambda>f. f this other w0))
                (\<lambda>_ w1. Returns () (set_m_Idx other s_Valueless w1)))
            = Returns () w'"
    by (auto split: option.splits)
  show ?thesis
  proof (cases "s_Valueless = m_Idx V'")
    case True
    with r inv0 show ?thesis by simp
  next
    case False
    with r have a: "and_then
                (call_at (s_MoveAssigns ops Ts) (m_Idx V') (\<lambda>f. f this other w0))
                (\<lambda>_ w1. Returns () (set_m_Idx other s_Valueless w1)) = Returns () w'" by simp
    from and_then_Returns [OF a] obtain w1 where
      t: "call_at (s_MoveAssigns ops Ts) (m_Idx V') (\<lambda>f. f this other w0) = Returns () w1"
      and w': "w' = set_m_Idx other s_Valueless w1" by auto
    from t have i: "unat (m_Idx V') < length Ts"
      by (auto simp: call_at_def s_MoveAssigns_def split: if_splits)
    from t have "TAssign ops Ts (Ts ! unat (m_Idx V')) Rvalue_ref this other w0 = Returns () w1"
      by (simp add: s_MoveAssigns_at [OF i])
    from TAssign_preserves [OF inv0 d N this]
    have "\<forall>p V. store w1 p = Some V \<longrightarrow> active_ok Ts V" .
    from set_valueless_preserves_same [OF this] w' show ?thesis by simp
  qed
qed

lemma copy_assign_preserves:
  fixes w :: "('t, 'v) world" and ops :: "('t, 'v, 'x) alternatives"
  assumes inv: "\<forall>p V. store w p = Some V \<longrightarrow> active_ok Ts V"
    and d: "distinct Ts" and N: "length Ts < 2 ^ 32"
    and c: "copy_assign ops Ts this other w = Returns () w'"
  shows "\<forall>p V. store w' p = Some V \<longrightarrow> active_ok Ts V"
proof -
  from c obtain V V' where V: "store w this = Some V" and O: "store w other = Some V'"
    by (auto simp: copy_assign_def split: option.splits)
  show ?thesis
  proof (cases "s_Valueless = m_Idx V'")
    case True
    with c V O have a: "and_then
               (if s_Valueless \<noteq> m_Idx V
                then call_at (s_Destructors Ts) (m_Idx V) (\<lambda>f. f this w)
                else Returns () w)
               (\<lambda>_ w1. Returns () (set_m_Idx this s_Valueless w1))
             = (Returns () w' :: (unit, 't, 'v, 'x) result)"
      by (auto simp: copy_assign_def split: if_splits)
    from and_then_Returns [OF a] obtain w1 where
      s: "(if s_Valueless \<noteq> m_Idx V
                then call_at (s_Destructors Ts) (m_Idx V) (\<lambda>f. f this w)
                else Returns () w) = (Returns () w1 :: (unit, 't, 'v, 'x) result)"
      and w': "w' = set_m_Idx this s_Valueless w1" by auto
    from set_valueless_preserves [OF inv destroy_step_frame [OF s]] w' show ?thesis by simp
  next
    case False
    with c V O have t: "call_at (s_CopyAssigns ops Ts) (m_Idx V') (\<lambda>f. f this other w)
        = Returns () w'"
      by (simp add: copy_assign_def)
    then have i: "unat (m_Idx V') < length Ts"
      by (auto simp: call_at_def s_CopyAssigns_def split: if_splits)
    from t have "TAssign ops Ts (Ts ! unat (m_Idx V')) Const_lvalue_ref this other w
        = Returns () w'"
      by (simp add: s_CopyAssigns_at [OF i])
    from TAssign_preserves [OF inv d N this] show ?thesis .
  qed
qed

lemma move_assign_preserves:
  fixes w :: "('t, 'v) world" and ops :: "('t, 'v, 'x) alternatives"
  assumes inv: "\<forall>p V. store w p = Some V \<longrightarrow> active_ok Ts V"
    and d: "distinct Ts" and N: "length Ts < 2 ^ 32"
    and c: "move_assign ops Ts this other w = Returns () w'"
  shows "\<forall>p V. store w' p = Some V \<longrightarrow> active_ok Ts V"
proof -
  from noexcept_Returns [OF c [unfolded move_assign_def]]
  obtain V V' where V: "store w this = Some V" and O: "store w other = Some V'"
    and r: "(if s_Valueless = m_Idx V'
               then and_then
                 (if s_Valueless \<noteq> m_Idx V
                  then call_at (s_Destructors Ts) (m_Idx V) (\<lambda>f. f this w)
                  else Returns () w)
                 (\<lambda>_ w1. Returns () (set_m_Idx this s_Valueless w1))
               else and_then
                 (call_at (s_MoveAssigns ops Ts) (m_Idx V') (\<lambda>f. f this other w))
                 (\<lambda>_ w1. Returns () (set_m_Idx other s_Valueless w1))) = Returns () w'"
    by (auto split: option.splits)
  show ?thesis
  proof (cases "s_Valueless = m_Idx V'")
    case True
    with r have a: "and_then
               (if s_Valueless \<noteq> m_Idx V
                then call_at (s_Destructors Ts) (m_Idx V) (\<lambda>f. f this w)
                else Returns () w)
               (\<lambda>_ w1. Returns () (set_m_Idx this s_Valueless w1))
             = (Returns () w' :: (unit, 't, 'v, 'x) result)"
      by (auto split: if_splits)
    from and_then_Returns [OF a] obtain w1 where
      s: "(if s_Valueless \<noteq> m_Idx V
                then call_at (s_Destructors Ts) (m_Idx V) (\<lambda>f. f this w)
                else Returns () w) = (Returns () w1 :: (unit, 't, 'v, 'x) result)"
      and w': "w' = set_m_Idx this s_Valueless w1" by auto
    from set_valueless_preserves [OF inv destroy_step_frame [OF s]] w' show ?thesis by simp
  next
    case False
    with r have a: "and_then
                 (call_at (s_MoveAssigns ops Ts) (m_Idx V') (\<lambda>f. f this other w))
                 (\<lambda>_ w1. Returns () (set_m_Idx other s_Valueless w1)) = Returns () w'" by simp
    from and_then_Returns [OF a] obtain w1 where
      t: "call_at (s_MoveAssigns ops Ts) (m_Idx V') (\<lambda>f. f this other w) = Returns () w1"
      and w': "w' = set_m_Idx other s_Valueless w1" by auto
    from t have i: "unat (m_Idx V') < length Ts"
      by (auto simp: call_at_def s_MoveAssigns_def split: if_splits)
    from t have "TAssign ops Ts (Ts ! unat (m_Idx V')) Rvalue_ref this other w = Returns () w1"
      by (simp add: s_MoveAssigns_at [OF i])
    from TAssign_preserves [OF inv d N this]
    have "\<forall>p V. store w1 p = Some V \<longrightarrow> active_ok Ts V" .
    from set_valueless_preserves_same [OF this] w' show ?thesis by simp
  qed
qed

lemma Variant_destructor_preserves:
  fixes w :: "('t, 'v) world"
  assumes inv: "\<forall>p V. store w p = Some V \<longrightarrow> active_ok Ts V"
    and c: "Variant_destructor Ts this w = (Returns () w' :: (unit, 't, 'v, 'x) result)"
  shows "\<forall>p V. store w' p = Some V \<longrightarrow> active_ok Ts V"
proof (intro allI impI)
  fix p V assume p: "store w' p = Some V"
  from c obtain V0 where V0: "store w this = Some V0"
    by (auto simp: Variant_destructor_def split: option.splits)
  from c V0 have a: "and_then
           (noexcept
              (if s_Valueless = m_Idx V0 then Returns () w
               else call_at (s_Destructors Ts) (m_Idx V0) (\<lambda>f. f this w)))
           (\<lambda>_ w'. Returns () (w'\<lparr>store := (store w')(this := None)\<rparr>))
      = (Returns () w' :: (unit, 't, 'v, 'x) result)"
    by (simp add: Variant_destructor_def)
  from and_then_Returns [OF a] obtain w1 where
    w': "w' = w1\<lparr>store := (store w1)(this := None)\<rparr>" by auto
  with p have ne: "p \<noteq> this" by auto
  from c have "world_after (Variant_destructor Ts this w :: (unit, 't, 'v, 'x) result) = Some w'"
    by simp
  from Variant_destructor_frame [OF this ne] p have "store w p = Some V" by simp
  with inv show "active_ok Ts V" by blast
qed

section \<open>The claims\<close>

text \<open>
  C1. For every alternative \<open>T\<close> of \<^verbatim>\<open>Ts...\<close> and every value \<open>v\<close> of it, passed as an lvalue
  or as an rvalue, when \<open>T\<close>'s copy or move constructor gives the new object the value
  \<open>v\<close>: the value initialiser returns, and on the new instance \<^verbatim>\<open>get<T>()\<close> returns the
  object \<open>Live T v\<close>, \<^verbatim>\<open>holds_alternative<T>()\<close> returns \<^verbatim>\<open>true\<close> and \<^verbatim>\<open>index()\<close> returns the
  position \<open>i\<close> of \<open>T\<close> in the list.
\<close>

theorem value_construction_roundtrip:
  fixes w :: "('t, 'v) world" and ops :: "('t, 'v, 'x) alternatives"
  assumes inst: "Variant_instantiable ops Ts" and N: "length Ts < 2 ^ 32"
    and T: "T \<in> set Ts" and free: "store w this = None"
    and src: "variant = Lvalue v \<or> variant = Rvalue v"
    and c: "constructs ops T (From variant) v"
  shows "\<exists>i w'. typeIdx Ts T = Some i \<and> i < length Ts \<and> Ts ! i = T \<and>
     Variant_value ops Ts T variant this w = Returns () w' \<and>
     get Ts T this w' = (Returns (Live T v) w' :: (('t, 'v) storage, 't, 'v, 'x) result) \<and>
     holds_alternative Ts T this w' = (Returns True w' :: (bool, 't, 'v, 'x) result) \<and>
     index this w' = (Returns (of_nat i) w' :: (32 word, 't, 'v, 'x) result) \<and>
     unat (of_nat i :: 32 word) = i"
proof -
  from typeIdx_member [OF T] obtain i where i: "typeIdx Ts T = Some i" by blast
  from typeIdx_Some [OF i] have il: "i < length Ts" and it: "Ts ! i = T" by simp_all
  have u: "unat (of_nat i :: 32 word) = i" using il N by (simp add: unat_of_nat_idx)
  have mem: "is_any_of T Ts" using T by (simp add: is_any_of_set)
  let ?V0 = "\<lparr>m_Raw = Zeroed, m_Idx = s_Valueless\<rparr> :: ('t, 'v) Variant"
  let ?w0 = "w\<lparr>store := (store w)(this \<mapsto> ?V0)\<rparr>"
  let ?w' = "w\<lparr>store := (store w)(this \<mapsto> \<lparr>m_Raw = Live T v, m_Idx = of_nat i\<rparr>),
              trace := trace w @ [Constructed this T v]\<rparr>"
  have V0: "store ?w0 this = Some ?V0" by simp
  have e: "emplace ops Ts T (From variant) this ?w0 = Returns (Live T v) ?w'"
    by (simp add: emplace_valueless [OF V0 _ i] placement_new_constructs [OF c])
  have "Variant_value ops Ts T variant this w = Returns () ?w'"
    by (simp add: Variant_value_def mem Variant_default_fresh [OF inst free] e
        delegating_body_def)
  moreover have "get Ts T this ?w'
      = (Returns (Live T v) ?w' :: (('t, 'v) storage, 't, 'v, 'x) result)"
    by (simp add: get_def mem i u)
  moreover have "holds_alternative Ts T this ?w' = (Returns True ?w' :: (bool, 't, 'v, 'x) result)"
    by (simp add: holds_alternative_def i u)
  moreover have "index this ?w' = (Returns (of_nat i) ?w' :: (32 word, 't, 'v, 'x) result)"
    by (simp add: index_def)
  ultimately show ?thesis using i il it u by blast
qed

theorem value_construction_roundtrip_witness:
  "get [''int'', ''string'', ''double''] ''int'' 0
     \<lparr>store = [0 \<mapsto> \<lparr>m_Raw = Live ''int'' (42::int), m_Idx = 0\<rparr>],
        trace = [Constructed 0 ''int'' 42]\<rparr>
   = (Returns (Live ''int'' 42)
       \<lparr>store = [0 \<mapsto> \<lparr>m_Raw = Live ''int'' (42::int), m_Idx = 0\<rparr>],
          trace = [Constructed 0 ''int'' 42]\<rparr>
      :: ((string, int) storage, string, int, unit) result) \<and>
   Variant_value
     \<lparr>sizeof = (\<lambda>T. 8), copy_ctor = (\<lambda>T v. Inr v), move_ctor = (\<lambda>T v. Inr (v, 0))\<rparr>
     [''int'', ''string'', ''double''] ''int'' (Lvalue 42) 0 \<lparr>store = Map.empty, trace = []\<rparr>
   = (Returns ()
       \<lparr>store = [0 \<mapsto> \<lparr>m_Raw = Live ''int'' (42::int), m_Idx = 0\<rparr>],
          trace = [Constructed 0 ''int'' 42]\<rparr>
      :: (unit, string, int, unit) result)"
proof -
  let ?ops = "\<lparr>sizeof = (\<lambda>T. 8), copy_ctor = (\<lambda>T v. Inr v), move_ctor = (\<lambda>T v. Inr (v, 0))\<rparr>
    :: (string, int, unit) alternatives"
  let ?w = "\<lparr>store = Map.empty, trace = []\<rparr> :: (string, int) world"
  let ?Ts = "[''int'', ''string'', ''double'']"
  have h1: "Variant_instantiable ?ops ?Ts"
    by (simp add: Variant_instantiable_def static_assert_unique_def is_unique_of_def s_RawSize_def)
  have h2: "length ?Ts < 2 ^ 32" by simp
  have h3: "''int'' \<in> set ?Ts" by simp
  have h4: "store ?w 0 = None" by simp
  have h5: "Lvalue (42::int) = Lvalue 42 \<or> Lvalue (42::int) = Rvalue 42" by simp
  have h6: "constructs ?ops ''int'' (From (Lvalue 42)) 42" by (simp add: constructs_def)
  have t: "typeIdx ?Ts ''int'' = Some 0" by (simp add: typeIdx_def)
  have v: "Variant_value ?ops ?Ts ''int'' (Lvalue 42) 0 ?w
    = Returns () \<lparr>store = [0 \<mapsto> \<lparr>m_Raw = Live ''int'' (42::int), m_Idx = 0\<rparr>],
          trace = [Constructed 0 ''int'' 42]\<rparr>"
    by (simp add: Variant_value_def is_any_of_def Variant_default_fresh [OF h1 h4]
        emplace_def t placement_new_def upd_def log_def set_m_Idx_def delegating_body_def)
  from value_construction_roundtrip [OF h1 h2 h3 h4 h5 h6]
  show ?thesis unfolding t v by auto
qed

text \<open>
  C2. For every Variant instance \<open>V\<close>, every member type \<open>T\<close> of \<^verbatim>\<open>Ts...\<close> and every index
  \<open>I\<close> in range: \<^verbatim>\<open>get<T>()\<close> and \<^verbatim>\<open>get<I>()\<close> leave by a \<^verbatim>\<open>bad_variant_access\<close> exactly
  when the requested index (the position \<open>i\<close> of \<open>T\<close>, or \<open>I\<close>) differs from \<^verbatim>\<open>m_Idx\<close>, and
  return the buffer otherwise; on a valueless instance they always raise;
  \<^verbatim>\<open>get_if<T>()\<close>, \<^verbatim>\<open>get_if<I>()\<close> and \<^verbatim>\<open>holds_alternative<T>()\<close> always return, with a
  null pointer or \<^verbatim>\<open>false\<close> exactly on that mismatch. The pack has fewer than \<open>2^32\<close>
  types, so that every index differs from the sentinel.
\<close>

theorem access_raises_iff_mismatch:
  fixes w :: "('t, 'v) world"
  assumes V: "store w this = Some V" and T: "T \<in> set Ts"
    and I: "I < length Ts" and N: "length Ts < 2 ^ 32"
  shows "\<exists>i. typeIdx Ts T = Some i \<and> i < length Ts \<and> Ts ! i = T \<and>
    raises_bad_access (get Ts T this w :: (('t, 'v) storage, 't, 'v, 'x) result)
      = (i \<noteq> unat (m_Idx V)) \<and>
    (i = unat (m_Idx V) \<longrightarrow>
       get Ts T this w = (Returns (m_Raw V) w :: (('t, 'v) storage, 't, 'v, 'x) result)) \<and>
    raises_bad_access (get_I Ts I this w :: (('t, 'v) storage, 't, 'v, 'x) result)
      = (I \<noteq> unat (m_Idx V)) \<and>
    (I = unat (m_Idx V) \<longrightarrow>
       get_I Ts I this w = (Returns (m_Raw V) w :: (('t, 'v) storage, 't, 'v, 'x) result)) \<and>
    (m_Idx V = s_Valueless \<longrightarrow>
       raises_bad_access (get Ts T this w :: (('t, 'v) storage, 't, 'v, 'x) result) \<and>
       raises_bad_access (get_I Ts I this w :: (('t, 'v) storage, 't, 'v, 'x) result)) \<and>
    get_if Ts T this w =
      (Returns (if i = unat (m_Idx V) then Some (m_Raw V) else None) w
        :: (('t, 'v) storage option, 't, 'v, 'x) result) \<and>
    get_if_I Ts I this w =
      (Returns (if I = unat (m_Idx V) then Some (m_Raw V) else None) w
        :: (('t, 'v) storage option, 't, 'v, 'x) result) \<and>
    holds_alternative Ts T this w =
      (Returns (i = unat (m_Idx V)) w :: (bool, 't, 'v, 'x) result)"
proof -
  from typeIdx_member [OF T] obtain i where i: "typeIdx Ts T = Some i" by blast
  from typeIdx_Some [OF i] have il: "i < length Ts" and it: "Ts ! i = T" by simp_all
  have mem: "is_any_of T Ts" using T by (simp add: is_any_of_set)
  have ith: "IthType_of I Ts = Some (Ts ! I)" using I by (rule IthType_of_nth)
  have g: "get Ts T this w =
      (if i \<noteq> unat (m_Idx V) then Throws (bad_get i (unat (m_Idx V))) w
       else (Returns (m_Raw V) w :: (('t, 'v) storage, 't, 'v, 'x) result))"
    by (simp add: get_def mem i V)
  have gI: "get_I Ts I this w =
      (if I \<noteq> unat (m_Idx V) then Throws (bad_get I (unat (m_Idx V))) w
       else (Returns (m_Raw V) w :: (('t, 'v) storage, 't, 'v, 'x) result))"
    by (simp add: get_I_def ith V)
  have sentinel: "i \<noteq> unat s_Valueless" "I \<noteq> unat s_Valueless"
    using il I N by (simp_all add: unat_s_Valueless)
  have "raises_bad_access (get Ts T this w :: (('t, 'v) storage, 't, 'v, 'x) result)
      = (i \<noteq> unat (m_Idx V))"
    by (simp only: g) simp
  moreover have "i = unat (m_Idx V) \<longrightarrow>
      get Ts T this w = (Returns (m_Raw V) w :: (('t, 'v) storage, 't, 'v, 'x) result)"
    by (simp only: g) simp
  moreover have "raises_bad_access (get_I Ts I this w :: (('t, 'v) storage, 't, 'v, 'x) result)
      = (I \<noteq> unat (m_Idx V))"
    by (simp only: gI) simp
  moreover have "I = unat (m_Idx V) \<longrightarrow>
      get_I Ts I this w = (Returns (m_Raw V) w :: (('t, 'v) storage, 't, 'v, 'x) result)"
    by (simp only: gI) simp
  moreover have "m_Idx V = s_Valueless \<longrightarrow>
       raises_bad_access (get Ts T this w :: (('t, 'v) storage, 't, 'v, 'x) result) \<and>
       raises_bad_access (get_I Ts I this w :: (('t, 'v) storage, 't, 'v, 'x) result)"
    using sentinel by (simp only: g gI) simp
  moreover have "get_if Ts T this w =
      (Returns (if i = unat (m_Idx V) then Some (m_Raw V) else None) w
        :: (('t, 'v) storage option, 't, 'v, 'x) result)"
    by (simp add: get_if_def mem i V)
  moreover have "get_if_I Ts I this w =
      (Returns (if I = unat (m_Idx V) then Some (m_Raw V) else None) w
        :: (('t, 'v) storage option, 't, 'v, 'x) result)"
    by (simp add: get_if_I_def ith V)
  moreover have "holds_alternative Ts T this w =
      (Returns (i = unat (m_Idx V)) w :: (bool, 't, 'v, 'x) result)"
    by (simp add: holds_alternative_def i V)
  ultimately show ?thesis using i il it by blast
qed

theorem access_raises_iff_mismatch_witness:
  "raises_bad_access
     (get [''int'', ''string'', ''double''] ''string'' 0
        \<lparr>store = [0 \<mapsto> \<lparr>m_Raw = Live ''int'' (42::int), m_Idx = 0\<rparr>], trace = []\<rparr>
      :: ((string, int) storage, string, int, unit) result) \<and>
   get_I [''int'', ''string'', ''double''] 0 0
        \<lparr>store = [0 \<mapsto> \<lparr>m_Raw = Live ''int'' (42::int), m_Idx = 0\<rparr>], trace = []\<rparr>
     = (Returns (Live ''int'' 42)
        \<lparr>store = [0 \<mapsto> \<lparr>m_Raw = Live ''int'' (42::int), m_Idx = 0\<rparr>], trace = []\<rparr>
      :: ((string, int) storage, string, int, unit) result) \<and>
   get_if [''int'', ''string'', ''double''] ''string'' 0
        \<lparr>store = [0 \<mapsto> \<lparr>m_Raw = Live ''int'' (42::int), m_Idx = 0\<rparr>], trace = []\<rparr>
     = (Returns None
        \<lparr>store = [0 \<mapsto> \<lparr>m_Raw = Live ''int'' (42::int), m_Idx = 0\<rparr>], trace = []\<rparr>
      :: ((string, int) storage option, string, int, unit) result)"
proof -
  let ?V = "\<lparr>m_Raw = Live ''int'' (42::int), m_Idx = 0\<rparr>"
  let ?w = "\<lparr>store = [0 \<mapsto> ?V], trace = []\<rparr>"
  let ?Ts = "[''int'', ''string'', ''double'']"
  have h1: "store ?w 0 = Some ?V" by simp
  have h2: "''string'' \<in> set ?Ts" by simp
  have h3: "(0::nat) < length ?Ts" by simp
  have h4: "length ?Ts < 2 ^ 32" by simp
  have t: "typeIdx ?Ts ''string'' = Some 1" by (simp add: typeIdx_def)
  from access_raises_iff_mismatch [OF h1 h2 h3 h4, where ?'x = unit]
  show ?thesis unfolding t by simp
qed

text \<open>
  C3. For every instance \<open>V\<close> at \<^verbatim>\<open>this\<close> that satisfies the invariant of an active
  instance and every alternative \<open>T\<close> of \<^verbatim>\<open>Ts...\<close>, when \<open>T\<close>'s constructor succeeds on the
  arguments with the value \<open>v\<close>: \<^verbatim>\<open>emplace<T>(args...)\<close> returns the reference to the new
  object \<open>Live T v\<close>, the discriminant becomes the index \<open>i\<close> of \<open>T\<close>, and the log grows by
  exactly one destructor call on the value that was active (none when the instance was
  valueless) followed by the construction of \<open>T\<close>. The active alternative may be \<open>T\<close>
  itself.
\<close>

theorem emplace_destroys_once_then_constructs:
  assumes V: "store w this = Some V" and ok: "active_ok Ts V" and d: "distinct Ts"
    and N: "length Ts < 2 ^ 32" and T: "T \<in> set Ts" and c: "constructs ops T args v"
  shows "\<exists>i. typeIdx Ts T = Some i \<and> i < length Ts \<and> Ts ! i = T \<and>
     unat (of_nat i :: 32 word) = i \<and>
     (m_Idx V = s_Valueless \<longrightarrow>
        emplace ops Ts T args this w =
          Returns (Live T v)
            (w\<lparr>store := (store w)(this \<mapsto> \<lparr>m_Raw = Live T v, m_Idx = of_nat i\<rparr>),
               trace := trace w @ [Constructed this T v]\<rparr>)) \<and>
     (m_Idx V \<noteq> s_Valueless \<longrightarrow>
        (\<exists>u. m_Raw V = Live (Ts ! unat (m_Idx V)) u \<and>
           emplace ops Ts T args this w =
             Returns (Live T v)
               (w\<lparr>store := (store w)(this \<mapsto> \<lparr>m_Raw = Live T v, m_Idx = of_nat i\<rparr>),
                  trace := trace w @ [Destroyed this (Ts ! unat (m_Idx V)) u,
                                      Constructed this T v]\<rparr>)))"
proof -
  from typeIdx_member [OF T] obtain i where i: "typeIdx Ts T = Some i" by blast
  from typeIdx_Some [OF i] have il: "i < length Ts" and it: "Ts ! i = T" by simp_all
  have u: "unat (of_nat i :: 32 word) = i" using il N by (simp add: unat_of_nat_idx)
  have valueless: "emplace ops Ts T args this w =
          Returns (Live T v)
            (w\<lparr>store := (store w)(this \<mapsto> \<lparr>m_Raw = Live T v, m_Idx = of_nat i\<rparr>),
               trace := trace w @ [Constructed this T v]\<rparr>)"
    if v: "m_Idx V = s_Valueless"
    by (cases V) (simp add: emplace_valueless [OF V v i] placement_new_constructs [OF c])
  have active: "\<exists>u. m_Raw V = Live (Ts ! unat (m_Idx V)) u \<and>
           emplace ops Ts T args this w =
             Returns (Live T v)
               (w\<lparr>store := (store w)(this \<mapsto> \<lparr>m_Raw = Live T v, m_Idx = of_nat i\<rparr>),
                  trace := trace w @ [Destroyed this (Ts ! unat (m_Idx V)) u,
                                      Constructed this T v]\<rparr>)"
    if a: "m_Idx V \<noteq> s_Valueless"
  proof -
    from ok a have j: "unat (m_Idx V) < length Ts"
      and "\<exists>u. m_Raw V = Live (Ts ! unat (m_Idx V)) u"
      by (auto simp: active_ok_def split: storage.splits)
    then obtain u where r: "m_Raw V = Live (Ts ! unat (m_Idx V)) u" by blast
    have "emplace ops Ts T args this w =
             Returns (Live T v)
               (w\<lparr>store := (store w)(this \<mapsto> \<lparr>m_Raw = Live T v, m_Idx = of_nat i\<rparr>),
                  trace := trace w @ [Destroyed this (Ts ! unat (m_Idx V)) u,
                                      Constructed this T v]\<rparr>)"
      by (simp add: emplace_active [OF V a j r d i] placement_new_constructs [OF c])
    with r show ?thesis by blast
  qed
  from i il it u valueless active show ?thesis by blast
qed

theorem emplace_destroys_once_then_constructs_witness:
  "emplace \<lparr>sizeof = (\<lambda>T. 8), copy_ctor = (\<lambda>T v. Inr v), move_ctor = (\<lambda>T v. Inr (v, 0))\<rparr>
     [''int'', ''string'', ''double''] ''string'' (Other (Inr 7)) 0
     \<lparr>store = [0 \<mapsto> \<lparr>m_Raw = Live ''int'' (42::int), m_Idx = 0\<rparr>], trace = []\<rparr>
   = (Returns (Live ''string'' 7)
       \<lparr>store = [0 \<mapsto> \<lparr>m_Raw = Live ''string'' 7, m_Idx = 1\<rparr>],
          trace = [Destroyed 0 ''int'' 42, Constructed 0 ''string'' 7]\<rparr>
      :: ((string, int) storage, string, int, unit) result)"
proof -
  let ?ops = "\<lparr>sizeof = (\<lambda>T. 8), copy_ctor = (\<lambda>T v. Inr v), move_ctor = (\<lambda>T v. Inr (v, 0))\<rparr>
    :: (string, int, unit) alternatives"
  let ?V = "\<lparr>m_Raw = Live ''int'' (42::int), m_Idx = 0\<rparr>"
  let ?w = "\<lparr>store = [0 \<mapsto> ?V], trace = []\<rparr>"
  let ?Ts = "[''int'', ''string'', ''double'']"
  have h1: "store ?w 0 = Some ?V" by simp
  have h2: "active_ok ?Ts ?V" by (simp add: active_ok_def)
  have h3: "distinct ?Ts" by simp
  have h4: "length ?Ts < 2 ^ 32" by simp
  have h5: "''string'' \<in> set ?Ts" by simp
  have h6: "constructs ?ops ''string'' (Other (Inr 7)) 7" by (simp add: constructs_def)
  have t: "typeIdx ?Ts ''string'' = Some 1" by (simp add: typeIdx_def)
  have s: "(0 :: 32 word) \<noteq> s_Valueless" by (simp add: s_Valueless_def)
  from emplace_destroys_once_then_constructs [OF h1 h2 h3 h4 h5 h6]
  show ?thesis unfolding t using s by auto
qed




text \<open>
  C5. For every instance \<open>A\<close> at \<open>a\<close> that holds alternative \<open>i = unat (m_Idx A)\<close> with the
  value \<open>v\<close>, when the move constructor of that alternative gives the new object the
  value \<open>v\<close>: move-constructing \<open>b\<close> from \<open>a\<close> returns, \<open>b\<close> has the discriminant \<open>i\<close> and
  holds \<open>v\<close>, and afterwards \<^verbatim>\<open>a.valueless()\<close> is true and \<^verbatim>\<open>a.index()\<close> is the sentinel.
\<close>

theorem move_construction_transfers:
  fixes w :: "('t, 'v) world" and ops :: "('t, 'v, 'x) alternatives"
  assumes inst: "Variant_instantiable ops Ts" and A: "store w a = Some A"
    and act: "m_Idx A \<noteq> s_Valueless" and j: "unat (m_Idx A) < length Ts"
    and r: "m_Raw A = Live (Ts ! unat (m_Idx A)) v" and free: "store w b = None"
    and mv: "move_ctor ops (Ts ! unat (m_Idx A)) v = Inr (v, u')"
  shows "\<exists>w'. Variant_move ops Ts b a w = Returns () w' \<and>
     store w' b = Some \<lparr>m_Raw = Live (Ts ! unat (m_Idx A)) v, m_Idx = m_Idx A\<rparr> \<and>
     index b w' = (Returns (m_Idx A) w' :: (32 word, 't, 'v, 'x) result) \<and>
     valueless a w' = (Returns True w' :: (bool, 't, 'v, 'x) result) \<and>
     index a w' = (Returns s_Valueless w' :: (32 word, 't, 'v, 'x) result)"
proof -
  let ?T = "Ts ! unat (m_Idx A)"
  have d: "distinct Ts" using inst by (rule Variant_instantiable_distinct)
  have ab: "a \<noteq> b" using A free by auto
  have ti: "typeIdx Ts ?T = Some (unat (m_Idx A))" using d j by (rule typeIdx_nth)
  let ?V0 = "\<lparr>m_Raw = Zeroed, m_Idx = s_Valueless\<rparr> :: ('t, 'v) Variant"
  let ?w0 = "w\<lparr>store := (store w)(b \<mapsto> ?V0)\<rparr>"
  let ?w1 = "?w0\<lparr>store := (store ?w0)(b \<mapsto> ?V0\<lparr>m_Idx := of_nat (unat (m_Idx A))\<rparr>)\<rparr>"
  let ?w' = "w\<lparr>store := (store w)(b \<mapsto> \<lparr>m_Raw = Live ?T v, m_Idx = m_Idx A\<rparr>,
                                      a \<mapsto> \<lparr>m_Raw = Live ?T u', m_Idx = s_Valueless\<rparr>),
              trace := trace w @ [Constructed b ?T v]\<rparr>"
  have V0: "store ?w0 b = Some ?V0" by simp
  have A0: "store ?w0 a = Some A" using ab A by simp
  have A1: "store ?w1 a = Some A" using ab A by simp
  have e: "emplace ops Ts ?T (From (RawRvalue a)) b ?w0
      = placement_new ops ?T (From (RawRvalue a)) b ?w1"
    by (rule emplace_valueless [OF V0 _ ti]) simp
  have p: "placement_new ops ?T (From (RawRvalue a)) b ?w1 =
     Returns (Live ?T v)
       (log (Constructed b ?T v)
          (upd b (m_Raw_update (\<lambda>_. Live ?T v)) (write_as ?T a u' ?w1)))"
    by (rule placement_new_RawRvalue [OF A1 _ mv]) (simp add: r)
  have fin: "set_m_Idx a s_Valueless (log (Constructed b ?T v)
          (upd b (m_Raw_update (\<lambda>_. Live ?T v)) (write_as ?T a u' ?w1))) = ?w'"
    using ab A r by (cases A) (auto simp: set_m_Idx_def upd_def log_def write_as_def fun_upd_twist)
  have act': "(s_Valueless = m_Idx A) = False" using act by auto
  have m: "Variant_move ops Ts b a w = Returns () ?w'"
    by (simp only: Variant_move_def Variant_default_fresh [OF inst free] and_then.simps A0
        option.simps act' if_False s_MoveAssigns_at [OF j] TAssign_def e p fin noexcept.simps
        source.simps ref_kind.simps)
  have "store ?w' b = Some \<lparr>m_Raw = Live ?T v, m_Idx = m_Idx A\<rparr>" using ab by simp
  moreover have "index b ?w' = (Returns (m_Idx A) ?w' :: (32 word, 't, 'v, 'x) result)"
    using ab by (simp add: index_def)
  moreover have "valueless a ?w' = (Returns True ?w' :: (bool, 't, 'v, 'x) result)"
    by (simp add: valueless_def)
  moreover have "index a ?w' = (Returns s_Valueless ?w' :: (32 word, 't, 'v, 'x) result)"
    by (simp add: index_def)
  ultimately show ?thesis using m by blast
qed

theorem move_construction_transfers_witness:
  "Variant_move
     \<lparr>sizeof = (\<lambda>T. 8), copy_ctor = (\<lambda>T v. Inr v), move_ctor = (\<lambda>T v. Inr (v, 0))\<rparr>
     [''int'', ''string'', ''double''] 1 0
     \<lparr>store = [0 \<mapsto> \<lparr>m_Raw = Live ''string'' (7::int), m_Idx = 1\<rparr>], trace = []\<rparr>
   = (Returns ()
       \<lparr>store = [0 \<mapsto> \<lparr>m_Raw = Live ''string'' 0, m_Idx = s_Valueless\<rparr>,
                 1 \<mapsto> \<lparr>m_Raw = Live ''string'' 7, m_Idx = 1\<rparr>],
          trace = [Constructed 1 ''string'' 7]\<rparr>
      :: (unit, string, int, unit) result) \<and>
   (\<exists>w'. Variant_move
     \<lparr>sizeof = (\<lambda>T. 8), copy_ctor = (\<lambda>T v. Inr v), move_ctor = (\<lambda>T v. Inr (v, 0))\<rparr>
     [''int'', ''string'', ''double''] 1 0
     \<lparr>store = [0 \<mapsto> \<lparr>m_Raw = Live ''string'' (7::int), m_Idx = 1\<rparr>], trace = []\<rparr>
     = (Returns () w' :: (unit, string, int, unit) result) \<and>
     valueless 0 w' = (Returns True w' :: (bool, string, int, unit) result))"
proof -
  let ?ops = "\<lparr>sizeof = (\<lambda>T. 8), copy_ctor = (\<lambda>T v. Inr v), move_ctor = (\<lambda>T v. Inr (v, 0))\<rparr>
    :: (string, int, unit) alternatives"
  let ?A = "\<lparr>m_Raw = Live ''string'' (7::int), m_Idx = 1\<rparr>"
  let ?w = "\<lparr>store = [0 \<mapsto> ?A], trace = []\<rparr>"
  let ?Ts = "[''int'', ''string'', ''double'']"
  have h1: "Variant_instantiable ?ops ?Ts"
    by (simp add: Variant_instantiable_def static_assert_unique_def is_unique_of_def s_RawSize_def)
  have h2: "store ?w 0 = Some ?A" by simp
  have h3: "m_Idx ?A \<noteq> s_Valueless" by (simp add: s_Valueless_def)
  have h4: "unat (m_Idx ?A) < length ?Ts" by simp
  have h5: "m_Raw ?A = Live (?Ts ! unat (m_Idx ?A)) 7" by simp
  have h6: "store ?w 1 = None" by simp
  have h7: "move_ctor ?ops (?Ts ! unat (m_Idx ?A)) 7 = Inr (7, 0)" by simp
  from move_construction_transfers [OF h1 h2 h3 h4 h5 h6 h7]
  obtain w' where m: "Variant_move ?ops ?Ts 1 0 ?w = Returns () w'"
    and vl: "valueless 0 w' = (Returns True w' :: (bool, string, int, unit) result)"
    by blast
  have t: "typeIdx ?Ts ''string'' = Some 1" by (simp add: typeIdx_def)
  have c: "Variant_move ?ops ?Ts 1 0 ?w
    = Returns ()
       \<lparr>store = [0 \<mapsto> \<lparr>m_Raw = Live ''string'' 0, m_Idx = s_Valueless\<rparr>,
                 1 \<mapsto> \<lparr>m_Raw = Live ''string'' 7, m_Idx = 1\<rparr>],
          trace = [Constructed 1 ''string'' 7]\<rparr>"
    using h3
    by (simp add: Variant_move_def Variant_default_def h1 call_at_def
        s_MoveAssigns_def TAssign_def emplace_def is_any_of_def t placement_new_def read_as_def
        write_as_def upd_def log_def set_m_Idx_def fun_upd_twist)
  from m vl c show ?thesis by blast
qed

text \<open>
  C6. For every instance \<open>A\<close> at \<open>a\<close> in a valid state and a new instance at \<open>b\<close>: the copy
  constructor gives a valueless \<open>b\<close> when \<open>a\<close> is valueless, and a \<open>b\<close> with \<open>a\<close>'s
  discriminant holding the copy when \<open>a\<close> is active and the alternative's copy
  constructor succeeds; in every world in which the copy constructor leaves its
  caller, \<open>a\<close> is still \<open>A\<close> (discriminant and value), and it is still \<open>A\<close> after any
  \<^verbatim>\<open>b.emplace<T>(args...)\<close> whose arguments do not move from \<open>a\<close>'s own buffer.
\<close>

theorem copy_is_independent:
  fixes w :: "('t, 'v) world" and ops :: "('t, 'v, 'x) alternatives"
  assumes inst: "Variant_instantiable ops Ts" and A: "store w a = Some A"
    and ok: "active_ok Ts A" and free: "store w b = None"
  shows "(m_Idx A = s_Valueless \<longrightarrow>
            Variant_copy ops Ts b a w =
              Returns () (w\<lparr>store := (store w)(b \<mapsto> \<lparr>m_Raw = Zeroed, m_Idx = s_Valueless\<rparr>)\<rparr>)) \<and>
         (\<forall>v v'. m_Idx A \<noteq> s_Valueless \<and> m_Raw A = Live (Ts ! unat (m_Idx A)) v \<and>
                 copy_ctor ops (Ts ! unat (m_Idx A)) v = Inr v' \<longrightarrow>
            Variant_copy ops Ts b a w =
              Returns ()
                (w\<lparr>store := (store w)(b \<mapsto>
                      \<lparr>m_Raw = Live (Ts ! unat (m_Idx A)) v', m_Idx = m_Idx A\<rparr>),
                   trace := trace w @ [Constructed b (Ts ! unat (m_Idx A)) v']\<rparr>)) \<and>
         (\<forall>w'. world_after (Variant_copy ops Ts b a w) = Some w' \<longrightarrow>
            store w' a = Some A \<and>
            (\<forall>T args w''. args \<noteq> From (RawRvalue a) \<and>
                 world_after (emplace ops Ts T args b w') = Some w'' \<longrightarrow>
               store w'' a = Some A))"
proof -
  have ab: "a \<noteq> b" using A free by auto
  have 1: "m_Idx A = s_Valueless \<longrightarrow>
            Variant_copy ops Ts b a w =
              Returns () (w\<lparr>store := (store w)(b \<mapsto> \<lparr>m_Raw = Zeroed, m_Idx = s_Valueless\<rparr>)\<rparr>)"
    using Variant_copy_valueless [OF inst A _ free] by blast
  have 2: "\<forall>v v'. m_Idx A \<noteq> s_Valueless \<and> m_Raw A = Live (Ts ! unat (m_Idx A)) v \<and>
                 copy_ctor ops (Ts ! unat (m_Idx A)) v = Inr v' \<longrightarrow>
            Variant_copy ops Ts b a w =
              Returns ()
                (w\<lparr>store := (store w)(b \<mapsto>
                      \<lparr>m_Raw = Live (Ts ! unat (m_Idx A)) v', m_Idx = m_Idx A\<rparr>),
                   trace := trace w @ [Constructed b (Ts ! unat (m_Idx A)) v']\<rparr>)"
  proof (intro allI impI)
    fix v v'
    assume h: "m_Idx A \<noteq> s_Valueless \<and> m_Raw A = Live (Ts ! unat (m_Idx A)) v \<and>
                 copy_ctor ops (Ts ! unat (m_Idx A)) v = Inr v'"
    then have act: "m_Idx A \<noteq> s_Valueless" and r: "m_Raw A = Live (Ts ! unat (m_Idx A)) v"
      and cp: "copy_ctor ops (Ts ! unat (m_Idx A)) v = Inr v'" by simp_all
    from active_okD [OF ok act] have j: "unat (m_Idx A) < length Ts" by simp
    show "Variant_copy ops Ts b a w =
              Returns ()
                (w\<lparr>store := (store w)(b \<mapsto>
                      \<lparr>m_Raw = Live (Ts ! unat (m_Idx A)) v', m_Idx = m_Idx A\<rparr>),
                   trace := trace w @ [Constructed b (Ts ! unat (m_Idx A)) v']\<rparr>)"
      by (rule Variant_copy_active [OF inst A act j r free cp])
  qed
  have 3: "\<forall>w'. world_after (Variant_copy ops Ts b a w) = Some w' \<longrightarrow>
            store w' a = Some A \<and>
            (\<forall>T args w''. args \<noteq> From (RawRvalue a) \<and>
                 world_after (emplace ops Ts T args b w') = Some w'' \<longrightarrow>
               store w'' a = Some A)"
  proof (intro allI impI conjI)
    fix w' assume c: "world_after (Variant_copy ops Ts b a w) = Some w'"
    from Variant_copy_frame [OF c ab] A show a': "store w' a = Some A" by simp
    fix T args w''
    assume e: "args \<noteq> From (RawRvalue a) \<and>
                 world_after (emplace ops Ts T args b w') = Some w''"
    then have "store w'' a = store w' a" using ab emplace_frame [of ops Ts T args b w' w'' a]
      by blast
    with a' show "store w'' a = Some A" by simp
  qed
  from 1 2 3 show ?thesis by blast
qed

theorem copy_is_independent_witness:
  "Variant_copy
     \<lparr>sizeof = (\<lambda>T. 8), copy_ctor = (\<lambda>T v. Inr v), move_ctor = (\<lambda>T v. Inr (v, 0))\<rparr>
     [''int'', ''string'', ''double''] 2 1
     \<lparr>store = [1 \<mapsto> \<lparr>m_Raw = Live ''string'' (7::int), m_Idx = 1\<rparr>], trace = []\<rparr>
   = (Returns ()
       \<lparr>store = [1 \<mapsto> \<lparr>m_Raw = Live ''string'' 7, m_Idx = 1\<rparr>,
                 2 \<mapsto> \<lparr>m_Raw = Live ''string'' 7, m_Idx = 1\<rparr>],
          trace = [Constructed 2 ''string'' 7]\<rparr>
      :: (unit, string, int, unit) result) \<and>
   emplace
     \<lparr>sizeof = (\<lambda>T. 8), copy_ctor = (\<lambda>T v. Inr v), move_ctor = (\<lambda>T v. Inr (v, 0))\<rparr>
     [''int'', ''string'', ''double''] ''double'' (Other (Inr 3)) 2
     \<lparr>store = [1 \<mapsto> \<lparr>m_Raw = Live ''string'' 7, m_Idx = 1\<rparr>,
               2 \<mapsto> \<lparr>m_Raw = Live ''string'' 7, m_Idx = 1\<rparr>],
        trace = [Constructed 2 ''string'' 7]\<rparr>
   = (Returns (Live ''double'' 3)
       \<lparr>store = [1 \<mapsto> \<lparr>m_Raw = Live ''string'' 7, m_Idx = 1\<rparr>,
                 2 \<mapsto> \<lparr>m_Raw = Live ''double'' 3, m_Idx = 2\<rparr>],
          trace = [Constructed 2 ''string'' 7, Destroyed 2 ''string'' 7,
                   Constructed 2 ''double'' 3]\<rparr>
      :: ((string, int) storage, string, int, unit) result)"
proof -
  let ?ops = "\<lparr>sizeof = (\<lambda>T. 8), copy_ctor = (\<lambda>T v. Inr v), move_ctor = (\<lambda>T v. Inr (v, 0))\<rparr>
    :: (string, int, unit) alternatives"
  let ?A = "\<lparr>m_Raw = Live ''string'' (7::int), m_Idx = 1\<rparr>"
  let ?w = "\<lparr>store = [1 \<mapsto> ?A], trace = []\<rparr>"
  let ?Ts = "[''int'', ''string'', ''double'']"
  let ?w' = "\<lparr>store = [1 \<mapsto> ?A, 2 \<mapsto> \<lparr>m_Raw = Live ''string'' 7, m_Idx = 1\<rparr>],
          trace = [Constructed 2 ''string'' 7]\<rparr> :: (string, int) world"
  have h1: "Variant_instantiable ?ops ?Ts"
    by (simp add: Variant_instantiable_def static_assert_unique_def is_unique_of_def s_RawSize_def)
  have h2: "store ?w 1 = Some ?A" by simp
  have h3: "active_ok ?Ts ?A" by (simp add: active_ok_def)
  have h4: "store ?w 2 = None" by simp
  have s: "(1 :: 32 word) \<noteq> s_Valueless" "(2 :: 32 word) \<noteq> s_Valueless"
    by (simp_all add: s_Valueless_def)
  have c: "Variant_copy ?ops ?Ts 2 1 ?w = Returns () ?w'"
    using copy_is_independent [OF h1 h2 h3 h4] s by simp
  have ts: "typeIdx ?Ts ''double'' = Some 2" "typeIdx ?Ts ''string'' = Some 1"
    by (simp_all add: typeIdx_def)
  have e: "emplace ?ops ?Ts ''double'' (Other (Inr 3)) 2 ?w'
    = Returns (Live ''double'' 3)
       \<lparr>store = [1 \<mapsto> ?A, 2 \<mapsto> \<lparr>m_Raw = Live ''double'' 3, m_Idx = 2\<rparr>],
          trace = [Constructed 2 ''string'' 7, Destroyed 2 ''string'' 7,
                   Constructed 2 ''double'' 3]\<rparr>"
    using s
    by (simp add: call_at_def s_Destructors_def TDestructor_def
        get_def T_destructor_def emplace_def is_any_of_def ts placement_new_def
        upd_def log_def set_m_Idx_def)
  from c e show ?thesis by simp
qed

text \<open>
  C7, as the code has it. In every world reached by public operations that return
  normally, every Variant instance whose discriminant is not the sentinel has the
  index of an alternative as its discriminant, and its buffer holds a live object of
  exactly that alternative (a buffer holds one object at most). The Variant type
  compiles and has fewer than \<open>2^32\<close> alternatives. Nothing is said about the buffer of a
  valueless instance.
\<close>

theorem reachable_active_instance_holds_its_alternative:
  fixes w :: "('t, 'v) world" and ops :: "('t, 'v, 'x) alternatives"
  assumes r: "reachable ops Ts w" and inst: "Variant_instantiable ops Ts"
    and N: "length Ts < 2 ^ 32" and p: "store w p = Some V"
  shows "active_ok Ts V \<and>
     (m_Idx V \<noteq> s_Valueless \<longrightarrow>
        unat (m_Idx V) < length Ts \<and> (\<exists>v. m_Raw V = Live (Ts ! unat (m_Idx V)) v))"
proof -
  have d: "distinct Ts" using inst by (rule Variant_instantiable_distinct)
  from r have "\<forall>p V. store w p = Some V \<longrightarrow> active_ok Ts V"
  proof (induction rule: reachable.induct)
    case start
    show ?case by simp
  next
    case (default_constructed w this w')
    from Variant_default_preserves [OF default_constructed.IH default_constructed.hyps(2)]
    show ?case .
  next
    case (value_constructed w T variant this w')
    from Variant_value_preserves [OF value_constructed.IH d N value_constructed.hyps(2)]
    show ?case .
  next
    case (copy_constructed w this other w')
    from Variant_copy_preserves [OF copy_constructed.IH d N copy_constructed.hyps(2)]
    show ?case .
  next
    case (move_constructed w this other w')
    from Variant_move_preserves [OF move_constructed.IH d N move_constructed.hyps(2)]
    show ?case .
  next
    case (copy_assigned w this other w')
    from copy_assign_preserves [OF copy_assigned.IH d N copy_assigned.hyps(2)]
    show ?case .
  next
    case (move_assigned w this other w')
    from move_assign_preserves [OF move_assigned.IH d N move_assigned.hyps(2)]
    show ?case .
  next
    case (value_assigned w T rhs this w')
    from value_assign_preserves [OF value_assigned.IH d N value_assigned.hyps(2)]
    show ?case .
  next
    case (emplaced w T args this r w')
    from emplace_preserves [OF emplaced.IH d N emplaced.hyps(2)]
    show ?case .
  next
    case (accessed w T this w')
    have "w' = w"
    proof (cases "get Ts T this w :: (('t, 'v) storage, 't, 'v, 'x) result")
      case (Returns a w1)
      with accessed.hyps(2) have "w1 = w'" by simp
      with Returns show ?thesis by (auto dest: get_Returns_world)
    next
      case (Throws e w1)
      with accessed.hyps(2) have "w1 = w'" by simp
      with Throws show ?thesis by (auto simp: get_def split: if_splits option.splits)
    qed (use accessed.hyps(2) in simp_all)
    with accessed.IH show ?case by simp
  next
    case (destroyed w this w')
    from Variant_destructor_preserves [OF destroyed.IH destroyed.hyps(2)]
    show ?case .
  qed
  with p have ok: "active_ok Ts V" by blast
  with active_okD [OF ok] show ?thesis by blast
qed

theorem reachable_active_instance_holds_its_alternative_witness:
  "reachable
     (\<lparr>sizeof = (\<lambda>T. 8), copy_ctor = (\<lambda>T v. Inr v), move_ctor = (\<lambda>T v. Inr (v, 0))\<rparr>
       :: (string, int, unit) alternatives)
     [''int'', ''string'', ''double'']
     \<lparr>store = [0 \<mapsto> \<lparr>m_Raw = Live ''string'' (7::int), m_Idx = 1\<rparr>],
        trace = [Constructed 0 ''string'' 7]\<rparr> \<and>
   active_ok [''int'', ''string'', ''double''] \<lparr>m_Raw = Live ''string'' (7::int), m_Idx = 1\<rparr>"
proof -
  let ?ops = "\<lparr>sizeof = (\<lambda>T. 8), copy_ctor = (\<lambda>T v. Inr v), move_ctor = (\<lambda>T v. Inr (v, 0))\<rparr>
    :: (string, int, unit) alternatives"
  let ?Ts = "[''int'', ''string'', ''double'']"
  let ?V = "\<lparr>m_Raw = Live ''string'' (7::int), m_Idx = 1\<rparr>"
  let ?w1 = "\<lparr>store = [0 \<mapsto> ?V], trace = [Constructed 0 ''string'' 7]\<rparr>"
  have inst: "Variant_instantiable ?ops ?Ts"
    by (simp add: Variant_instantiable_def static_assert_unique_def is_unique_of_def s_RawSize_def)
  have N: "length ?Ts < 2 ^ 32" by simp
  have t: "typeIdx ?Ts ''string'' = Some 1" by (simp add: typeIdx_def)
  have v: "Variant_value ?ops ?Ts ''string'' (Lvalue 7) 0 \<lparr>store = (\<lambda>p. None), trace = []\<rparr>
      = Returns () ?w1"
    by (simp add: Variant_value_def is_any_of_def Variant_default_def inst
        emplace_def t placement_new_def upd_def log_def set_m_Idx_def delegating_body_def)
  have r: "reachable ?ops ?Ts ?w1"
    by (rule reachable.value_constructed [OF reachable.start v])
  have p: "store ?w1 0 = Some ?V" by simp
  from reachable_active_instance_holds_its_alternative [OF r inst N p] r
  show ?thesis by simp
qed

text \<open>
  C7 as stated fails. The move constructor stores the sentinel in its source and never
  destroys the object that the move left there: after constructing a Variant over
  \<^verbatim>\<open>int, string, double\<close> from a \<^verbatim>\<open>string\<close> and moving it into a second instance, the
  first is valueless and its buffer still holds a live \<^verbatim>\<open>string\<close>. And an \<^verbatim>\<open>emplace\<close>
  whose constructor throws leaves the instance with the discriminant of the new
  alternative and no live object.
\<close>

theorem state_invariant_counterexample:
  "reachable
     (\<lparr>sizeof = (\<lambda>T. 8), copy_ctor = (\<lambda>T v. Inr v), move_ctor = (\<lambda>T v. Inr (v, 0))\<rparr>
       :: (string, int, unit) alternatives)
     [''int'', ''string'', ''double'']
     \<lparr>store = [0 \<mapsto> \<lparr>m_Raw = Live ''string'' (0::int), m_Idx = s_Valueless\<rparr>,
               1 \<mapsto> \<lparr>m_Raw = Live ''string'' 7, m_Idx = 1\<rparr>],
        trace = [Constructed 0 ''string'' 7, Constructed 1 ''string'' 7]\<rparr> \<and>
   \<not> state_invariant [''int'', ''string'', ''double'']
       \<lparr>m_Raw = Live ''string'' (0::int), m_Idx = s_Valueless\<rparr> \<and>
   reachable
     (\<lparr>sizeof = (\<lambda>T. 8), copy_ctor = (\<lambda>T v. Inr v), move_ctor = (\<lambda>T v. Inr (v, 0))\<rparr>
       :: (string, int, unit) alternatives)
     [''int'', ''string'', ''double'']
     \<lparr>store = [0 \<mapsto> \<lparr>m_Raw = Live ''string'' (7::int), m_Idx = 1\<rparr>],
        trace = [Constructed 0 ''string'' 7]\<rparr> \<and>
   emplace
     \<lparr>sizeof = (\<lambda>T. 8), copy_ctor = (\<lambda>T v. Inr v), move_ctor = (\<lambda>T v. Inr (v, 0))\<rparr>
     [''int'', ''string'', ''double''] ''double'' (Other (Inl ())) 0
     \<lparr>store = [0 \<mapsto> \<lparr>m_Raw = Live ''string'' (7::int), m_Idx = 1\<rparr>],
        trace = [Constructed 0 ''string'' 7]\<rparr>
   = Throws (alternative_failure ())
       \<lparr>store = [0 \<mapsto> \<lparr>m_Raw = Dead ''string'' 7, m_Idx = 2\<rparr>],
          trace = [Constructed 0 ''string'' 7, Destroyed 0 ''string'' 7]\<rparr> \<and>
   \<not> state_invariant [''int'', ''string'', ''double'']
       \<lparr>m_Raw = Dead ''string'' (7::int), m_Idx = 2\<rparr>"
proof -
  let ?ops = "\<lparr>sizeof = (\<lambda>T. 8), copy_ctor = (\<lambda>T v. Inr v), move_ctor = (\<lambda>T v. Inr (v, 0))\<rparr>
    :: (string, int, unit) alternatives"
  let ?Ts = "[''int'', ''string'', ''double'']"
  let ?V = "\<lparr>m_Raw = Live ''string'' (7::int), m_Idx = 1\<rparr>"
  let ?w1 = "\<lparr>store = [0 \<mapsto> ?V], trace = [Constructed 0 ''string'' 7]\<rparr>"
  let ?w2 = "\<lparr>store = [0 \<mapsto> \<lparr>m_Raw = Live ''string'' (0::int), m_Idx = s_Valueless\<rparr>,
               1 \<mapsto> \<lparr>m_Raw = Live ''string'' 7, m_Idx = 1\<rparr>],
        trace = [Constructed 0 ''string'' 7, Constructed 1 ''string'' 7]\<rparr>"
  have inst: "Variant_instantiable ?ops ?Ts"
    by (simp add: Variant_instantiable_def static_assert_unique_def is_unique_of_def s_RawSize_def)
  have t: "typeIdx ?Ts ''string'' = Some 1" "typeIdx ?Ts ''double'' = Some 2"
    by (simp_all add: typeIdx_def)
  have s: "(1 :: 32 word) \<noteq> s_Valueless" "(2 :: 32 word) \<noteq> s_Valueless"
    by (simp_all add: s_Valueless_def)
  have v: "Variant_value ?ops ?Ts ''string'' (Lvalue 7) 0 \<lparr>store = (\<lambda>p. None), trace = []\<rparr>
      = Returns () ?w1"
    by (simp add: Variant_value_def is_any_of_def Variant_default_def inst
        emplace_def t placement_new_def upd_def log_def set_m_Idx_def delegating_body_def)
  have r1: "reachable ?ops ?Ts ?w1"
    by (rule reachable.value_constructed [OF reachable.start v])
  have m: "Variant_move ?ops ?Ts 1 0 ?w1 = Returns () ?w2"
    using s
    by (simp add: Variant_move_def Variant_default_def inst call_at_def
        s_MoveAssigns_def TAssign_def emplace_def is_any_of_def t placement_new_def read_as_def
        write_as_def upd_def log_def set_m_Idx_def fun_upd_twist)
  have r2: "reachable ?ops ?Ts ?w2"
    by (rule reachable.move_constructed [OF r1 m])
  have n2: "\<not> state_invariant ?Ts \<lparr>m_Raw = Live ''string'' (0::int), m_Idx = s_Valueless\<rparr>"
    by (simp add: state_invariant_def)
  have e: "emplace ?ops ?Ts ''double'' (Other (Inl ())) 0 ?w1
    = Throws (alternative_failure ())
       \<lparr>store = [0 \<mapsto> \<lparr>m_Raw = Dead ''string'' 7, m_Idx = 2\<rparr>],
          trace = [Constructed 0 ''string'' 7, Destroyed 0 ''string'' 7]\<rparr>"
    using s
    by (simp add: emplace_def is_any_of_def t call_at_def s_Destructors_def TDestructor_def
        get_def T_destructor_def placement_new_def upd_def log_def set_m_Idx_def)
  have n3: "\<not> state_invariant ?Ts \<lparr>m_Raw = Dead ''string'' (7::int), m_Idx = 2\<rparr>"
    using s by (simp add: state_invariant_def active_ok_def)
  from r2 n2 r1 e n3 show ?thesis by blast
qed

text \<open>
  C8. For every type list \<open>T, Ts\<close>, \<^verbatim>\<open>is_unique<T, Ts...>::value\<close> is true exactly when no
  two types of the list are the same, and when it is false the class
  \<^verbatim>\<open>Variant<T, Ts...>\<close> does not compile: no constructor of it can be called, so no
  instance over a list with duplicates exists.
\<close>

theorem is_unique_no_duplicates:
  "is_unique T Ts = distinct (T # Ts) \<and>
   (\<not> is_unique T Ts \<longrightarrow>
      \<not> Variant_instantiable ops (T # Ts) \<and>
      Variant_default ops (T # Ts) this w = Rejected \<and>
      Variant_value ops (T # Ts) R variant this w = Rejected \<and>
      Variant_copy ops (T # Ts) this other w = Rejected \<and>
      Variant_move ops (T # Ts) this other w = Rejected)"
  by (simp add: is_unique_distinct Variant_instantiable_iff Variant_default_def
      Variant_value_def Variant_copy_def Variant_move_def)

theorem is_unique_no_duplicates_witness:
  "\<not> is_unique ''bool'' [''float'', ''int'', ''float'', ''double''] \<and>
   \<not> distinct [''bool'', ''float'', ''int'', ''float'', ''double''] \<and>
   Variant_default \<lparr>sizeof = (\<lambda>T. 8), copy_ctor = (\<lambda>T v. Inr v), move_ctor = (\<lambda>T v. Inr (v, 0))\<rparr>
     [''bool'', ''float'', ''int'', ''float'', ''double''] 0
     \<lparr>store = (\<lambda>p. None), trace = []\<rparr>
   = (Rejected :: (unit, string, int, unit) result)"
  using is_unique_no_duplicates [of "''bool''" "[''float'', ''int'', ''float'', ''double'']"
      "\<lparr>sizeof = (\<lambda>T. 8), copy_ctor = (\<lambda>T v. Inr v), move_ctor = (\<lambda>T v. Inr (v, 0::int))\<rparr> :: (string, int, unit) alternatives"
      0 "\<lparr>store = (\<lambda>p. None), trace = []\<rparr>"]
  by simp





end
